(* ===== verification/VGI_Prelude.thy ===== *)
theory VGI_Prelude
  imports Main "HOL-Library.Word" "HOL-Library.AList"
begin

text \<open>
  The vocabulary every component of the development shares: bytes and little-endian
  integers as Rust lays them out, Rust strings as their UTF-8 bytes, the error value
  \<open>RpcError\<close> and the result type, and the association lists that stand for
  \<open>HashMap\<close>s the code iterates over.
\<close>

section \<open>Collections of facts\<close>

named_theorems le_simps \<open>little-endian encoding and decoding\<close>
named_theorems result_simps \<open>inversion of the result type's operations\<close>
named_theorems acct_simps \<open>accounting over association lists\<close>

section \<open>Bytes\<close>

type_synonym byte = "8 word"
type_synonym bytes = "byte list"

text \<open>\<open>uN::to_le_bytes\<close> and \<open>uN::from_le_bytes\<close>, with the number of bytes explicit.\<close>

primrec le_bytes :: "nat \<Rightarrow> nat \<Rightarrow> bytes" where
  "le_bytes 0 n = []"
| "le_bytes (Suc k) n = word_of_nat n # le_bytes k (n div 256)"

primrec le_nat :: "bytes \<Rightarrow> nat" where
  "le_nat [] = 0"
| "le_nat (b # bs) = unat b + 256 * le_nat bs"

lemma length_le_bytes [simp, le_simps]: "length (le_bytes k n) = k"
  by (induction k arbitrary: n) auto

lemma unat_byte_of_nat [simp]: "unat (word_of_nat n :: byte) = n mod 256"
  by (simp add: unat_of_nat)

lemma le_nat_le_bytes_mod: "le_nat (le_bytes k n) = n mod 256 ^ k"
proof (induction k arbitrary: n)
  case 0
  then show ?case by simp
next
  case (Suc k)
  have "le_nat (le_bytes (Suc k) n) = n mod 256 + 256 * (n div 256 mod 256 ^ k)"
    by (simp add: Suc.IH)
  also have "\<dots> = n mod (256 * 256 ^ k)"
    by (metis add.commute mod_mult2_eq)
  finally show ?case by simp
qed

lemma le_nat_le_bytes [le_simps]: "n < 256 ^ k \<Longrightarrow> le_nat (le_bytes k n) = n"
  by (simp add: le_nat_le_bytes_mod)

lemma le_nat_bound: "le_nat bs < 256 ^ length bs"
proof (induction bs)
  case Nil
  then show ?case by simp
next
  case (Cons b bs)
  have "unat b < 256" using unsigned_less [of b] by simp
  with Cons show ?case by simp
qed

lemma le_bytes_le_nat [le_simps]: "length bs = k \<Longrightarrow> le_bytes k (le_nat bs) = bs"
proof (induction bs arbitrary: k)
  case Nil
  then show ?case by simp
next
  case (Cons b bs)
  have b: "unat b < 256" using unsigned_less [of b] by simp
  obtain m where m: "k = Suc m" "length bs = m" using Cons.prems by auto
  have "word_of_nat (unat b + 256 * le_nat bs) = b"
    by (rule unsigned_word_eqI [where ?'a = nat]) (use b in \<open>simp del: of_nat_add of_nat_mult\<close>)
  moreover have "(unat b + 256 * le_nat bs) div 256 = le_nat bs"
    using b by simp
  ultimately show ?case using m Cons.IH [of m] by simp
qed

lemma le_bytes_inject [le_simps]:
  "m < 256 ^ k \<Longrightarrow> n < 256 ^ k \<Longrightarrow> le_bytes k m = le_bytes k n \<longleftrightarrow> m = n"
  by (metis le_nat_le_bytes)

text \<open>Signed 64-bit integers: mathematical integers within the range of \<open>i64\<close>.\<close>

definition i64_range :: "int \<Rightarrow> bool" where
  "i64_range v \<longleftrightarrow> - (2 ^ 63) \<le> v \<and> v < 2 ^ 63"

definition i64_wrap :: "int \<Rightarrow> int" where
  "i64_wrap v = (v + 2 ^ 63) mod 2 ^ 64 - 2 ^ 63"

definition i64_le_bytes :: "int \<Rightarrow> bytes" where
  "i64_le_bytes v = le_bytes 8 (nat (v mod 2 ^ 64))"

definition i64_of_le :: "bytes \<Rightarrow> int" where
  "i64_of_le bs = (let n = int (le_nat bs) in if n < 2 ^ 63 then n else n - 2 ^ 64)"

lemma i64_wrap_over: "2 ^ 63 \<le> v \<Longrightarrow> v < 2 ^ 64 + 2 ^ 63 \<Longrightarrow> i64_wrap v = v - 2 ^ 64"
proof -
  assume "2 ^ 63 \<le> v" "v < 2 ^ 64 + 2 ^ 63"
  then have "(v + 2 ^ 63 - 2 ^ 64) mod 2 ^ 64 = v + 2 ^ 63 - 2 ^ 64"
    by (intro mod_pos_pos_trivial) simp_all
  then have "(v + 2 ^ 63) mod 2 ^ 64 = v + 2 ^ 63 - 2 ^ 64"
    by (simp only: minus_mod_self2)
  then show ?thesis by (simp add: i64_wrap_def)
qed

lemma i64_wrap_le: "- (2 ^ 63) \<le> v \<Longrightarrow> i64_wrap v \<le> v"
proof -
  assume "- (2 ^ 63) \<le> v"
  then have "(v + 2 ^ 63) mod 2 ^ 64 \<le> v + 2 ^ 63" by (intro zmod_le_nonneg_dividend) simp
  then show ?thesis by (simp add: i64_wrap_def)
qed

lemma length_i64_le_bytes [simp, le_simps]: "length (i64_le_bytes v) = 8"
  by (simp add: i64_le_bytes_def)

lemma i64_wrap_id [simp]: "i64_range v \<Longrightarrow> i64_wrap v = v"
  by (simp add: i64_range_def i64_wrap_def)

lemma i64_range_wrap [simp]: "i64_range (i64_wrap v)"
proof -
  have "0 \<le> (v + 2 ^ 63) mod 2 ^ 64" "(v + 2 ^ 63) mod 2 ^ 64 < 2 ^ 64" by simp_all
  then show ?thesis unfolding i64_range_def i64_wrap_def by simp
qed

lemma i64_of_le_roundtrip [le_simps]: "i64_range v \<Longrightarrow> i64_of_le (i64_le_bytes v) = v"
proof -
  assume r: "i64_range v"
  have "nat (v mod 2 ^ 64) < 256 ^ 8" by simp
  then have n: "int (le_nat (i64_le_bytes v)) = v mod 2 ^ 64"
    unfolding i64_le_bytes_def by (subst le_nat_le_bytes) simp_all
  show ?thesis
  proof (cases "0 \<le> v")
    case True
    with r have "v mod 2 ^ 64 = v" by (simp add: i64_range_def)
    with r n show ?thesis by (simp add: i64_of_le_def i64_range_def)
  next
    case False
    with r have "(v + 2 ^ 64) mod 2 ^ 64 = v + 2 ^ 64"
      by (intro mod_pos_pos_trivial) (simp_all add: i64_range_def)
    then have "v mod 2 ^ 64 = v + 2 ^ 64" by simp
    with r False n show ?thesis by (simp add: i64_of_le_def i64_range_def)
  qed
qed

lemma i64_range_of_le [simp]: "length bs = 8 \<Longrightarrow> i64_range (i64_of_le bs)"
  using le_nat_bound [of bs] by (simp add: i64_of_le_def i64_range_def Let_def)

lemma i64_le_of_le [le_simps]:
  assumes "length b = 8"
  shows "i64_le_bytes (i64_of_le b) = b"
proof -
  have "int (le_nat b) < 2 ^ 64" using le_nat_bound [of b] assms by simp
  then have "i64_of_le b mod 2 ^ 64 = int (le_nat b)"
    by (simp add: i64_of_le_def Let_def mod_pos_pos_trivial)
  then show ?thesis
    using assms by (simp add: i64_le_bytes_def le_bytes_le_nat)
qed

section \<open>Strings\<close>

text \<open>
  A Rust \<open>String\<close> is its UTF-8 bytes: a \<^typ>\<open>string\<close> whose characters are bytes.
  \<open>valid_utf8\<close> is the check of \<open>String::from_utf8\<close> (the well-formed byte sequences of
  the Unicode standard): shortest form, no surrogates, at most U+10FFFF.
\<close>

definition as_bytes :: "string \<Rightarrow> bytes" where
  "as_bytes s = map of_char s"

definition string_of_bytes :: "bytes \<Rightarrow> string" where
  "string_of_bytes bs = map (\<lambda>b. char_of (unat b)) bs"

lemma length_as_bytes [simp]: "length (as_bytes s) = length s"
  by (simp add: as_bytes_def)

lemma as_bytes_Nil [simp]: "as_bytes s = [] \<longleftrightarrow> s = []" "as_bytes [] = []"
  by (simp_all add: as_bytes_def)

lemma as_bytes_append [simp]: "as_bytes (s @ t) = as_bytes s @ as_bytes t"
  by (simp add: as_bytes_def)

lemma string_of_as_bytes [simp]: "string_of_bytes (as_bytes s) = s"
proof -
  have "char_of (unat (of_char c :: byte)) = c" for c
  proof -
    have "unat (of_char c :: byte) = (of_char c :: nat)"
      by (metis of_nat_of_char unat_byte_of_nat of_char_mod_256)
    then show ?thesis by simp
  qed
  then show ?thesis by (simp add: string_of_bytes_def as_bytes_def comp_def)
qed

lemma as_bytes_string_of [simp]: "as_bytes (string_of_bytes bs) = bs"
proof -
  have "(of_char (char_of (unat b) :: char) :: byte) = b" for b :: byte
  proof -
    have "unat b < 256" using unsigned_less [of b] by simp
    then have "(of_char (char_of (unat b) :: char) :: nat) = unat b" by simp
    then have "(of_char (char_of (unat b) :: char) :: byte) = word_of_nat (unat b)"
      by (metis of_nat_of_char)
    then show ?thesis by simp
  qed
  then show ?thesis by (simp add: string_of_bytes_def as_bytes_def comp_def)
qed

lemma as_bytes_inject [simp]: "as_bytes s = as_bytes t \<longleftrightarrow> s = t"
  by (metis string_of_as_bytes)

definition utf8_cont :: "byte \<Rightarrow> bool" where
  "utf8_cont b \<longleftrightarrow> 0x80 \<le> b \<and> b \<le> 0xBF"

fun valid_utf8 :: "bytes \<Rightarrow> bool" where
  "valid_utf8 [] = True"
| "valid_utf8 (a # bs) =
     (if a \<le> 0x7F then valid_utf8 bs
      else if 0xC2 \<le> a \<and> a \<le> 0xDF then
        (case bs of b # r \<Rightarrow> utf8_cont b \<and> valid_utf8 r | _ \<Rightarrow> False)
      else if 0xE0 \<le> a \<and> a \<le> 0xEF then
        (case bs of b # c # r \<Rightarrow>
           utf8_cont b \<and> utf8_cont c \<and> (a = 0xE0 \<longrightarrow> 0xA0 \<le> b) \<and> (a = 0xED \<longrightarrow> b \<le> 0x9F)
           \<and> valid_utf8 r
         | _ \<Rightarrow> False)
      else if 0xF0 \<le> a \<and> a \<le> 0xF4 then
        (case bs of b # c # d # r \<Rightarrow>
           utf8_cont b \<and> utf8_cont c \<and> utf8_cont d
           \<and> (a = 0xF0 \<longrightarrow> 0x90 \<le> b) \<and> (a = 0xF4 \<longrightarrow> b \<le> 0x8F) \<and> valid_utf8 r
         | _ \<Rightarrow> False)
      else False)"

text \<open>The type invariant of \<open>String\<close> and \<open>&str\<close>.\<close>

definition rust_str :: "string \<Rightarrow> bool" where
  "rust_str s \<longleftrightarrow> valid_utf8 (as_bytes s)"

definition from_utf8 :: "bytes \<Rightarrow> string option" where
  "from_utf8 bs = (if valid_utf8 bs then Some (string_of_bytes bs) else None)"

lemma rust_str_ascii: "list_all (\<lambda>c. (of_char c :: byte) \<le> 0x7F) s \<Longrightarrow> rust_str s"
  by (induction s) (simp_all add: rust_str_def as_bytes_def)

lemma from_utf8_as_bytes [simp]: "rust_str s \<Longrightarrow> from_utf8 (as_bytes s) = Some s"
  by (simp add: from_utf8_def rust_str_def)

lemma from_utf8_SomeD: "from_utf8 bs = Some s \<Longrightarrow> rust_str s \<and> as_bytes s = bs"
  by (auto simp: from_utf8_def rust_str_def split: if_splits)

text \<open>\<open>u8::is_ascii_digit\<close>, \<open>to_ascii_lowercase\<close> and their kin, on the byte of a character.\<close>

abbreviation code :: "char \<Rightarrow> nat" where
  "code c \<equiv> of_char c"

definition is_ascii_digit :: "char \<Rightarrow> bool" where
  "is_ascii_digit c \<longleftrightarrow> 48 \<le> code c \<and> code c \<le> 57"

definition is_ascii_lowercase :: "char \<Rightarrow> bool" where
  "is_ascii_lowercase c \<longleftrightarrow> 97 \<le> code c \<and> code c \<le> 122"

definition is_ascii_uppercase :: "char \<Rightarrow> bool" where
  "is_ascii_uppercase c \<longleftrightarrow> 65 \<le> code c \<and> code c \<le> 90"

definition is_ascii_alphanumeric :: "char \<Rightarrow> bool" where
  "is_ascii_alphanumeric c \<longleftrightarrow> is_ascii_digit c \<or> is_ascii_lowercase c \<or> is_ascii_uppercase c"

text \<open>\<open>u8::is_ascii_whitespace\<close>: space, tab, line feed, form feed, carriage return.\<close>

definition is_ascii_whitespace :: "char \<Rightarrow> bool" where
  "is_ascii_whitespace c \<longleftrightarrow> code c \<in> {32, 9, 10, 12, 13}"

definition to_ascii_lowercase :: "char \<Rightarrow> char" where
  "to_ascii_lowercase c = (if is_ascii_uppercase c then char_of (code c + 32) else c)"

definition to_ascii_uppercase :: "char \<Rightarrow> char" where
  "to_ascii_uppercase c = (if is_ascii_lowercase c then char_of (code c - 32) else c)"

definition eq_ignore_ascii_case :: "string \<Rightarrow> string \<Rightarrow> bool" where
  "eq_ignore_ascii_case s t \<longleftrightarrow> map to_ascii_lowercase s = map to_ascii_lowercase t"

lemma eq_ignore_ascii_case_refl [simp]: "eq_ignore_ascii_case s s"
  by (simp add: eq_ignore_ascii_case_def)

lemma eq_ignore_ascii_case_sym: "eq_ignore_ascii_case s t \<longleftrightarrow> eq_ignore_ascii_case t s"
  by (auto simp: eq_ignore_ascii_case_def)

lemma eq_ignore_ascii_case_trans:
  "eq_ignore_ascii_case s t \<Longrightarrow> eq_ignore_ascii_case t u \<Longrightarrow> eq_ignore_ascii_case s u"
  by (simp add: eq_ignore_ascii_case_def)

text \<open>\<open>str::strip_prefix\<close> and \<open>str::starts_with\<close>.\<close>

text \<open>Bits of a byte.\<close>

lemma byte_bit_high [simp]: "8 \<le> n \<Longrightarrow> \<not> bit (b :: byte) n"
  using bit_imp_le_length [of b n] by auto

lemma less8_cases:
  assumes "(n :: nat) < 8"
  obtains "n = 0" | "n = Suc 0" | "n = 2" | "n = 3" | "n = 4" | "n = 5" | "n = 6" | "n = 7"
proof -
  have "n \<in> set [0..<8]" using assms by simp
  then have "n = 0 \<or> n = Suc 0 \<or> n = 2 \<or> n = 3 \<or> n = 4 \<or> n = 5 \<or> n = 6 \<or> n = 7"
    by (simp add: upt_rec numeral_eq_Suc)
  then show ?thesis using that by blast
qed

text \<open>Decimal and two-digit hexadecimal rendering, as \<open>format!\<close> prints integers and bytes.\<close>

definition digit_char :: "nat \<Rightarrow> char" where
  "digit_char d = char_of (if d < 10 then 48 + d else 87 + d)"

fun show_nat :: "nat \<Rightarrow> string" where
  "show_nat n = (if n < 10 then [digit_char n] else show_nat (n div 10) @ [digit_char (n mod 10)])"

declare show_nat.simps [simp del]

definition show_int :: "int \<Rightarrow> string" where
  "show_int i = (if i < 0 then CHR ''-'' # show_nat (nat (- i)) else show_nat (nat i))"

definition hex2 :: "byte \<Rightarrow> string" where
  "hex2 b = [digit_char (unat b div 16), digit_char (unat b mod 16)]"

definition dec_value :: "string \<Rightarrow> nat" where
  "dec_value s = foldl (\<lambda>a c. 10 * a + (code c - 48)) 0 s"

text \<open>\<open>{:?}\<close> of a string: quoted, with the ASCII escapes of \<open>escape_debug\<close>.\<close>

definition escape_debug :: "char \<Rightarrow> string" where
  "escape_debug c =
     (if c = CHR 0x09 then [CHR 0x5C, CHR ''t''] else if c = CHR 0x0A then [CHR 0x5C, CHR ''n'']
      else if c = CHR 0x0D then [CHR 0x5C, CHR ''r''] else if c = CHR 0x00 then [CHR 0x5C, CHR ''0'']
      else if c = CHR 0x22 \<or> c = CHR 0x5C then [CHR 0x5C, c]
      else if code c < 32 \<or> code c = 127 then
        [CHR 0x5C, CHR ''u'', CHR 0x7B]
        @ (if code c < 16 then [digit_char (code c)] else hex2 (of_char c)) @ [CHR 0x7D]
      else [c])"

definition debug_str :: "string \<Rightarrow> string" where
  "debug_str s = [CHR 0x22] @ concat (map escape_debug s) @ [CHR 0x22]"

lemma code_digit_char: "d < 10 \<Longrightarrow> code (digit_char d) = 48 + d"
  by (simp add: digit_char_def of_char_of)

lemma digit_char_digit: "d < 10 \<Longrightarrow> is_ascii_digit (digit_char d)"
  by (simp add: is_ascii_digit_def code_digit_char)

lemma dec_value_snoc: "dec_value (s @ [c]) = 10 * dec_value s + (code c - 48)"
  by (simp add: dec_value_def)

lemma dec_value_show_nat [simp]: "dec_value (show_nat n) = n"
proof (induction n rule: show_nat.induct)
  case (1 n)
  then show ?case
    by (cases "n < 10")
       (simp_all add: show_nat.simps [of n] dec_value_snoc code_digit_char dec_value_def [of "[_]"])
qed

lemma show_nat_inject [simp]: "show_nat m = show_nat n \<longleftrightarrow> m = n"
  by (metis dec_value_show_nat)

lemma show_nat_digits: "c \<in> set (show_nat n) \<Longrightarrow> is_ascii_digit c"
proof (induction n rule: show_nat.induct)
  case (1 n)
  then show ?case
    by (cases "n < 10") (auto simp: show_nat.simps [of n] intro: digit_char_digit)
qed

lemma show_nat_nonempty [simp]: "show_nat n \<noteq> []"
  by (simp add: show_nat.simps)

text \<open>\<open>str::parse::<i64>\<close>: an optional sign, at least one digit, nothing else, in range.\<close>

definition parse_nat :: "string \<Rightarrow> nat option" where
  "parse_nat s = (if s \<noteq> [] \<and> list_all is_ascii_digit s then Some (dec_value s) else None)"

definition parse_i64 :: "string \<Rightarrow> int option" where
  "parse_i64 s =
     (let v = (case s of
                 [] \<Rightarrow> None
               | c # cs \<Rightarrow>
                   if c = CHR ''-'' then map_option (\<lambda>n. - int n) (parse_nat cs)
                   else if c = CHR ''+'' then map_option int (parse_nat cs)
                   else map_option int (parse_nat (c # cs)))
      in (case v of None \<Rightarrow> None | Some i \<Rightarrow> if i64_range i then Some i else None))"

lemma parse_nat_show [simp]: "parse_nat (show_nat n) = Some n"
  by (simp add: parse_nat_def list_all_iff show_nat_digits)

lemma parse_i64_show [simp]:
  assumes "i64_range i"
  shows "parse_i64 (show_int i) = Some i"
proof (cases "i < 0")
  case True
  with assms show ?thesis by (simp add: parse_i64_def show_int_def)
next
  case False
  obtain c cs where s: "show_nat (nat i) = c # cs" by (cases "show_nat (nat i)") auto
  then have "is_ascii_digit c" using show_nat_digits [of c "nat i"] by simp
  then have "c \<noteq> CHR ''-''" "c \<noteq> CHR ''+''" by (auto simp: is_ascii_digit_def)
  then have "parse_i64 (show_nat (nat i)) = (case map_option int (parse_nat (show_nat (nat i))) of
      None \<Rightarrow> None | Some i \<Rightarrow> if i64_range i then Some i else None)"
    unfolding s by (simp add: parse_i64_def)
  with False assms show ?thesis by (simp add: show_int_def)
qed

fun strip_prefix :: "'a list \<Rightarrow> 'a list \<Rightarrow> 'a list option" where
  "strip_prefix [] ys = Some ys"
| "strip_prefix (x # xs) [] = None"
| "strip_prefix (x # xs) (y # ys) = (if x = y then strip_prefix xs ys else None)"

lemma strip_prefix_append [simp]: "strip_prefix p (p @ s) = Some s"
  by (induction p) auto

lemma strip_prefix_Some_iff: "strip_prefix p s = Some r \<longleftrightarrow> s = p @ r"
  by (induction p s rule: strip_prefix.induct) auto

definition starts_with :: "'a list \<Rightarrow> 'a list \<Rightarrow> bool" where
  "starts_with p s \<longleftrightarrow> strip_prefix p s \<noteq> None"

lemma starts_with_iff: "starts_with p s \<longleftrightarrow> (\<exists>r. s = p @ r)"
  by (auto simp: starts_with_def strip_prefix_Some_iff)

section \<open>Errors and results\<close>

text \<open>
  \<open>vgi_rpc::RpcError\<close> as far as this code builds it: the exception name, the message,
  the \<open>error_kind\<close> of \<open>with_status\<close> and the \<open>(field, description)\<close> pairs of its details.
\<close>

datatype rpc_error =
  RpcError (error_type: string) (message: string) (error_kind: "string option")
    (violations: "(string \<times> string) list")

type_synonym 'a result = "rpc_error + 'a"

definition value_error :: "string \<Rightarrow> rpc_error" where
  "value_error m = RpcError ''ValueError'' m None []"

definition runtime_error :: "string \<Rightarrow> rpc_error" where
  "runtime_error m = RpcError ''RuntimeError'' m None []"

text \<open>The \<open>?\<close> operator.\<close>

definition rbind :: "('e + 'a) \<Rightarrow> ('a \<Rightarrow> 'e + 'b) \<Rightarrow> 'e + 'b" where
  "rbind r f = (case r of Inl e \<Rightarrow> Inl e | Inr v \<Rightarrow> f v)"

definition is_ok :: "('e + 'a) \<Rightarrow> bool" where
  "is_ok r \<longleftrightarrow> (\<exists>v. r = Inr v)"

definition ok_or :: "'e \<Rightarrow> 'a option \<Rightarrow> 'e + 'a" where
  "ok_or e x = (case x of None \<Rightarrow> Inl e | Some v \<Rightarrow> Inr v)"

definition map_err :: "('e \<Rightarrow> 'f) \<Rightarrow> 'e + 'a \<Rightarrow> 'f + 'a" where
  "map_err f r = (case r of Inl e \<Rightarrow> Inl (f e) | Inr v \<Rightarrow> Inr v)"

lemma rbind_simps [simp, result_simps]:
  "rbind (Inl e) f = Inl e" "rbind (Inr v) f = f v"
  by (simp_all add: rbind_def)

lemma rbind_eq_Inr_iff [result_simps]:
  "rbind r f = Inr y \<longleftrightarrow> (\<exists>v. r = Inr v \<and> f v = Inr y)"
  by (cases r) auto

lemma rbind_eq_Inl_iff [result_simps]:
  "rbind r f = Inl e \<longleftrightarrow> r = Inl e \<or> (\<exists>v. r = Inr v \<and> f v = Inl e)"
  by (cases r) auto

lemma is_ok_simps [simp, result_simps]:
  "is_ok (Inr v)" "\<not> is_ok (Inl e)"
  by (simp_all add: is_ok_def)

lemma ok_or_simps [simp, result_simps]:
  "ok_or e None = Inl e" "ok_or e (Some v) = Inr v"
  by (simp_all add: ok_or_def)

lemma ok_or_eq_Inr_iff [result_simps]: "ok_or e x = Inr v \<longleftrightarrow> x = Some v"
  by (cases x) auto

lemma map_err_simps [simp, result_simps]:
  "map_err f (Inl e) = Inl (f e)" "map_err f (Inr v) = Inr v"
  by (simp_all add: map_err_def)

lemma map_err_eq_Inr_iff [result_simps]: "map_err f r = Inr v \<longleftrightarrow> r = Inr v"
  by (cases r) auto

lemma rbind_cong [fundef_cong]:
  "r = r' \<Longrightarrow> (\<And>v. r' = Inr v \<Longrightarrow> f v = f' v) \<Longrightarrow> rbind r f = rbind r' f'"
  by (cases r') auto

text \<open>\<open>iter().map(f).collect::<Result<Vec<_>>>()\<close>: the first error wins.\<close>

text \<open>Every error a computation can return satisfies a predicate.\<close>

definition errs_in :: "('e \<Rightarrow> bool) \<Rightarrow> 'e + 'a \<Rightarrow> bool" where
  "errs_in P r \<longleftrightarrow> (\<forall>e. r = Inl e \<longrightarrow> P e)"

named_theorems errs_intros \<open>introduction rules for the errors of a computation\<close>

lemma errs_in_basic [errs_intros]: "P e \<Longrightarrow> errs_in P (Inl e)" "errs_in P (Inr x)"
  by (simp_all add: errs_in_def)

lemma errs_in_rbind [errs_intros]:
  "errs_in P m \<Longrightarrow> (\<And>x. errs_in P (f x)) \<Longrightarrow> errs_in P (rbind m f)"
  by (auto simp: errs_in_def rbind_def split: sum.splits)

lemma errs_in_if [errs_intros]: "errs_in P x \<Longrightarrow> errs_in P y \<Longrightarrow> errs_in P (if b then x else y)"
  by simp

lemma errs_in_prod [errs_intros]: "(\<And>a b. errs_in P (f a b)) \<Longrightarrow> errs_in P (case p of (a, b) \<Rightarrow> f a b)"
  by (cases p) simp

lemma errs_in_option [errs_intros]:
  "errs_in P x \<Longrightarrow> (\<And>y. errs_in P (f y)) \<Longrightarrow> errs_in P (case v of None \<Rightarrow> x | Some y \<Rightarrow> f y)"
  by (cases v) simp_all

lemma errs_inD: "errs_in P r \<Longrightarrow> r = Inl e \<Longrightarrow> P e"
  by (simp add: errs_in_def)

fun collect_results :: "('e + 'a) list \<Rightarrow> 'e + 'a list" where
  "collect_results [] = Inr []"
| "collect_results (r # rs) = rbind r (\<lambda>v. rbind (collect_results rs) (\<lambda>vs. Inr (v # vs)))"

lemma collect_results_Inr_iff [result_simps]:
  "collect_results rs = Inr vs \<longleftrightarrow> rs = map Inr vs"
proof (induction rs arbitrary: vs)
  case Nil
  then show ?case by auto
next
  case (Cons r rs)
  then show ?case by (cases vs) (auto simp: result_simps)
qed

section \<open>Hash maps as association lists\<close>

text \<open>
  A \<open>HashMap\<close> that the code iterates over is an association list with distinct keys:
  \<^const>\<open>map_of\<close> is \<open>get\<close>, \<^const>\<open>AList.delete\<close> is \<open>remove\<close>, \<open>hm_insert\<close> is \<open>insert\<close>.
  \<open>total w m\<close> sums a weight over the entries, as the caches' byte counters do.
\<close>

definition hm_insert :: "'k \<Rightarrow> 'v \<Rightarrow> ('k \<times> 'v) list \<Rightarrow> ('k \<times> 'v) list" where
  "hm_insert k v m = AList.delete k m @ [(k, v)]"

abbreviation hm_ok :: "('k \<times> 'v) list \<Rightarrow> bool" where
  "hm_ok m \<equiv> distinct (map fst m)"

definition total :: "('v \<Rightarrow> nat) \<Rightarrow> ('k \<times> 'v) list \<Rightarrow> nat" where
  "total w m = sum_list (map (w \<circ> snd) m)"

lemma map_of_hm_insert [simp]: "map_of (hm_insert k v m) = (map_of m)(k \<mapsto> v)"
proof
  fix x
  show "map_of (hm_insert k v m) x = ((map_of m)(k \<mapsto> v)) x"
    by (cases "map_of (AList.delete k m) x")
      (auto simp: hm_insert_def map_add_def AList.delete_conv' split: option.splits if_splits)
qed

lemma map_of_delete_eq: "map_of (AList.delete k m) x = (if x = k then None else map_of m x)"
  by (simp add: AList.delete_conv')

lemma hm_ok_delete [simp, intro]: "hm_ok m \<Longrightarrow> hm_ok (AList.delete k m)"
  by (rule AList.distinct_delete)

lemma hm_ok_insert [simp, intro]: "hm_ok m \<Longrightarrow> hm_ok (hm_insert k v m)"
  by (simp add: hm_insert_def AList.delete_keys distinct_removeAll)

lemma hm_ok_filter [simp, intro]: "hm_ok m \<Longrightarrow> hm_ok (filter P m)"
  by (induction m) auto

lemma keys_hm_insert [simp]: "fst ` set (hm_insert k v m) = insert k (fst ` set m)"
  by (auto simp: hm_insert_def AList.delete_eq image_iff)

lemma keys_delete [simp]: "fst ` set (AList.delete k m) = fst ` set m - {k}"
  by (auto simp: AList.delete_eq image_iff)

lemma total_simps [simp, acct_simps]:
  "total w [] = 0"
  "total w (x # m) = w (snd x) + total w m"
  "total w (m @ m') = total w m + total w m'"
  by (simp_all add: total_def)

lemma total_delete [acct_simps]:
  "hm_ok m \<Longrightarrow> map_of m k = Some v \<Longrightarrow> total w m = w v + total w (AList.delete k m)"
proof (induction m)
  case Nil
  then show ?case by simp
next
  case (Cons x m)
  show ?case
  proof (cases "fst x = k")
    case True
    with Cons.prems have "k \<notin> fst ` set m" "snd x = v" by auto
    with True show ?thesis by (cases x) simp
  next
    case False
    with Cons.prems have "total w m = w v + total w (AList.delete k m)"
      by (intro Cons.IH) (auto split: if_splits)
    with False show ?thesis by (cases x) simp
  qed
qed

lemma total_delete_le: "total w (AList.delete k m) \<le> total w m"
  by (induction m) auto

lemma length_delete [acct_simps]:
  "hm_ok m \<Longrightarrow> map_of m k = Some v \<Longrightarrow> length m = Suc (length (AList.delete k m))"
  using total_delete [of m k v "\<lambda>_. 1"] by (simp add: total_def comp_def sum_list_triv)

lemma total_insert [acct_simps]: "total w (hm_insert k v m) = total w (AList.delete k m) + w v"
  by (simp add: hm_insert_def)

lemma total_filter_le: "total w (filter P m) \<le> total w m"
  by (induction m) auto

lemma total_filter_split: "total w m = total w (filter P m) + total w (filter (\<lambda>x. \<not> P x) m)"
  by (induction m) auto

lemma member_total_le: "(k, v) \<in> set m \<Longrightarrow> w v \<le> total w m"
  by (induction m) auto

text \<open>\<open>values().any(..)\<close> and \<open>iter().find_map(..)\<close>.\<close>

fun find_map :: "('a \<Rightarrow> 'b option) \<Rightarrow> 'a list \<Rightarrow> 'b option" where
  "find_map f [] = None"
| "find_map f (x # xs) = (case f x of None \<Rightarrow> find_map f xs | Some y \<Rightarrow> Some y)"

lemma find_map_SomeD: "find_map f xs = Some y \<Longrightarrow> \<exists>x \<in> set xs. f x = Some y"
  by (induction xs) (auto split: option.splits)

lemma find_map_None_iff: "find_map f xs = None \<longleftrightarrow> (\<forall>x \<in> set xs. f x = None)"
  by (induction xs) (auto split: option.splits)

end
