(* ===== verification/Base64.thy ===== *)
theory Base64
  imports VGI_Prelude
begin

unbundle bit_operations_syntax

text \<open>
  The two hand-written base64 routines of the worker crate: \<open>base64_encode\<close> of
  \<open>src/vgi/src/partition.rs\<close> (the encoder of \<open>vgi_partition_values#b64\<close>) and
  \<open>b64_decode\<close> of \<open>src/vgi/src/pushdown.rs\<close> (the decoder of pushed filters), with the
  24-bit groups kept as the \<open>u32\<close> values the code shifts.
\<close>

section \<open>Encoder\<close>

definition b64_table :: string where
  "b64_table = ''ABCDEFGHIJKLMNOPQRSTUVWXYZabcdefghijklmnopqrstuvwxyz0123456789+/''"

text \<open>\<open>slice::chunks(n)\<close> for a positive \<open>n\<close>.\<close>

function chunks :: "nat \<Rightarrow> 'a list \<Rightarrow> 'a list list" where
  "chunks n xs = (if xs = [] \<or> n = 0 then [] else take n xs # chunks n (drop n xs))"
  by pat_completeness auto
termination by (relation "measure (\<lambda>(n, xs). length xs)") auto

declare chunks.simps [simp del]

definition b64_digit :: "32 word \<Rightarrow> char" where
  "b64_digit v = b64_table ! unat (v AND 63)"

definition encode_chunk :: "bytes \<Rightarrow> string" where
  "encode_chunk chunk =
     (let b0 = ucast (chunk ! 0) :: 32 word;
          b1 = (if 1 < length chunk then ucast (chunk ! 1) else 0);
          b2 = (if 2 < length chunk then ucast (chunk ! 2) else 0);
          n = (push_bit 16 b0 OR push_bit 8 b1) OR b2
      in [b64_digit (drop_bit 18 n), b64_digit (drop_bit 12 n),
          if 1 < length chunk then b64_digit (drop_bit 6 n) else CHR ''='',
          if 2 < length chunk then b64_digit n else CHR ''=''])"

definition base64_encode :: "bytes \<Rightarrow> string" where
  "base64_encode data = concat (map encode_chunk (chunks 3 data))"

section \<open>Decoder\<close>

definition b64_code :: "char \<Rightarrow> byte option" where
  "b64_code c =
     (let b = of_char c :: byte in
      if is_ascii_uppercase c then Some (b - 65)
      else if is_ascii_lowercase c then Some (b - 97 + 26)
      else if is_ascii_digit c then Some (b - 48 + 52)
      else if c = CHR ''+'' then Some 62
      else if c = CHR ''/'' then Some 63
      else None)"

fun fold_bits :: "32 word \<Rightarrow> string \<Rightarrow> 32 word option" where
  "fold_bits bits [] = Some bits"
| "fold_bits bits (c # cs) =
     (case b64_code c of
        None \<Rightarrow> None
      | Some v \<Rightarrow> fold_bits (push_bit 6 bits OR ucast v) cs)"

definition decode_chunk :: "string \<Rightarrow> bytes option" where
  "decode_chunk chunk =
     (case fold_bits 0 chunk of
        None \<Rightarrow> None
      | Some bits \<Rightarrow>
          (let bits = push_bit (6 * (4 - length chunk)) bits
           in Some (map (\<lambda>index. ucast (drop_bit (16 - index * 8) bits)) [0..<length chunk - 1])))"

fun decode_chunks :: "string list \<Rightarrow> bytes option" where
  "decode_chunks [] = Some []"
| "decode_chunks (c # cs) =
     (case decode_chunk c of
        None \<Rightarrow> None
      | Some out \<Rightarrow> (case decode_chunks cs of None \<Rightarrow> None | Some rest \<Rightarrow> Some (out @ rest)))"

definition b64_clean :: "string \<Rightarrow> string" where
  "b64_clean value = filter (\<lambda>c. \<not> is_ascii_whitespace c \<and> c \<noteq> CHR ''='') value"

definition b64_decode :: "string \<Rightarrow> bytes option" where
  "b64_decode value =
     (let clean = b64_clean value
      in if length clean mod 4 = 1 then None else decode_chunks (chunks 4 clean))"

section \<open>Chunks\<close>

lemma chunks_Nil [simp]: "chunks n [] = []"
  by (simp add: chunks.simps)

lemma chunks_step: "xs \<noteq> [] \<Longrightarrow> 0 < n \<Longrightarrow> chunks n xs = take n xs # chunks n (drop n xs)"
  by (simp add: chunks.simps)

lemma chunks_append: "length xs = n \<Longrightarrow> 0 < n \<Longrightarrow> chunks n (xs @ ys) = xs # chunks n ys"
  by (subst chunks_step) auto

lemma chunks_short: "xs \<noteq> [] \<Longrightarrow> length xs \<le> n \<Longrightarrow> chunks n xs = [xs]"
  by (subst chunks_step) (cases xs; simp)+

lemma concat_chunks [simp]: "0 < n \<Longrightarrow> concat (chunks n xs) = xs"
  by (induction n xs rule: chunks.induct) (subst chunks.simps, simp)

lemma chunk_length: "c \<in> set (chunks n xs) \<Longrightarrow> c \<noteq> [] \<and> length c \<le> n"
proof (induction n xs rule: chunks.induct)
  case (1 n xs)
  then show ?case
    by (cases "xs = [] \<or> n = 0") (auto simp: chunks.simps [of n xs])
qed

section \<open>Digits\<close>

lemma length_b64_table: "length b64_table = 64"
  by (simp add: b64_table_def)

lemma b64_table_codes: "map b64_code b64_table = map (\<lambda>i. Some (word_of_nat i)) [0..<64]"
  by (simp add: b64_table_def b64_code_def Let_def is_ascii_uppercase_def is_ascii_lowercase_def
      is_ascii_digit_def upt_rec)

lemma b64_table_code: "i < 64 \<Longrightarrow> b64_code (b64_table ! i) = Some (word_of_nat i)"
  using arg_cong [OF b64_table_codes, of "\<lambda>xs. xs ! i"] by (simp add: length_b64_table)

lemma b64_table_clean:
  "i < 64 \<Longrightarrow> \<not> is_ascii_whitespace (b64_table ! i) \<and> b64_table ! i \<noteq> CHR ''=''"
proof -
  have "list_all (\<lambda>c. \<not> is_ascii_whitespace c \<and> c \<noteq> CHR ''='') b64_table"
    by (simp add: b64_table_def is_ascii_whitespace_def)
  then show "i < 64 \<Longrightarrow> ?thesis" by (simp add: list_all_length length_b64_table)
qed

lemma mask6: "(63 :: 32 word) = mask 6"
  by (simp add: mask_eq_exp_minus_1)

lemma unat_and_63: "unat (v AND 63 :: 32 word) < 64"
  using take_bit_nat_less_exp [of 6 "unat v"]
  by (simp add: mask6 take_bit_eq_mask [symmetric] unsigned_take_bit_eq)

lemma b64_code_digit: "b64_code (b64_digit v) = Some (ucast (v AND 63))"
  by (simp add: b64_digit_def b64_table_code unat_and_63 unsigned_ucast_eq)

lemma b64_digit_clean [simp]:
  "\<not> is_ascii_whitespace (b64_digit v)" "b64_digit v \<noteq> CHR ''=''"
  using b64_table_clean [OF unat_and_63] by (simp_all add: b64_digit_def)

section \<open>Round trip of one chunk\<close>

lemma fold_bits_digits:
  "fold_bits b (map b64_digit vs) = Some (foldl (\<lambda>a v. push_bit 6 a OR ucast (ucast (v AND 63) :: byte)) b vs)"
  by (induction vs arbitrary: b) (simp_all add: b64_code_digit)

lemmas chunk_simps = encode_chunk_def decode_chunk_def Let_def b64_code_digit upt_rec

lemma decode_chunk3: "decode_chunk (encode_chunk [a, b, c]) = Some [a, b, c]"
  by (simp add: chunk_simps)
     (intro conjI; rule bit_word_eqI; simp add: bit_simps mask6; erule less8_cases; simp add: numeral_eq_Suc)

lemma decode_chunk2:
  "decode_chunk (filter (\<lambda>c. c \<noteq> CHR ''='') (encode_chunk [a, b])) = Some [a, b]"
  by (simp add: chunk_simps)
     (intro conjI; rule bit_word_eqI; simp add: bit_simps mask6; erule less8_cases; simp add: numeral_eq_Suc)

lemma decode_chunk1:
  "decode_chunk (filter (\<lambda>c. c \<noteq> CHR ''='') (encode_chunk [a])) = Some [a]"
  by (simp add: chunk_simps)
     (rule bit_word_eqI; simp add: bit_simps mask6; erule less8_cases; simp add: numeral_eq_Suc)

section \<open>Round trip\<close>

lemma b64_clean_append [simp]: "b64_clean (xs @ ys) = b64_clean xs @ b64_clean ys"
  by (simp add: b64_clean_def)

lemma b64_clean_chunk:
  "b64_clean (encode_chunk bs) = filter (\<lambda>c. c \<noteq> CHR ''='') (encode_chunk bs)"
  by (simp add: b64_clean_def encode_chunk_def Let_def)

lemma bytes_three_cases:
  obtains "bs = []" | a where "bs = [a]" | a b where "bs = [a, b]" | a b c r where "bs = a # b # c # r"
  by (metis list.exhaust)

lemma length_clean_chunk:
  "0 < length bs \<Longrightarrow> length bs \<le> 3 \<Longrightarrow> length (b64_clean (encode_chunk bs)) = Suc (length bs)"
  by (cases bs rule: bytes_three_cases) (auto simp: b64_clean_def encode_chunk_def Let_def)

lemma chunks_clean_chunk:
  assumes "0 < length bs" "length bs \<le> 3"
  shows "chunks 4 (b64_clean (encode_chunk bs)) = [b64_clean (encode_chunk bs)]"
proof (rule chunks_short)
  show "b64_clean (encode_chunk bs) \<noteq> []"
    using length_clean_chunk [OF assms] by auto
  show "length (b64_clean (encode_chunk bs)) \<le> 4"
    using length_clean_chunk [OF assms] assms by simp
qed

lemma base64_encode_step: "base64_encode (a # b # c # r) = encode_chunk [a, b, c] @ base64_encode r"
  by (simp add: base64_encode_def chunks_step numeral_eq_Suc)

lemma base64_encode_short: "bs \<noteq> [] \<Longrightarrow> length bs \<le> 3 \<Longrightarrow> base64_encode bs = encode_chunk bs"
  by (simp add: base64_encode_def chunks_short)

lemma b64_encode_clean:
  "decode_chunks (chunks 4 (b64_clean (base64_encode bs))) = Some bs
     \<and> length (b64_clean (base64_encode bs)) mod 4 \<noteq> 1"
proof (induction "length bs" arbitrary: bs rule: less_induct)
  case less
  show ?case
  proof (cases bs rule: bytes_three_cases)
    case 1
    then show ?thesis by (simp add: base64_encode_def b64_clean_def)
  next
    case (2 a)
    then show ?thesis
      using decode_chunk1 [of a] length_clean_chunk [of "[a]"]
      by (simp add: base64_encode_short b64_clean_chunk [symmetric] chunks_clean_chunk)
  next
    case (3 a b)
    then show ?thesis
      using decode_chunk2 [of a b] length_clean_chunk [of "[a, b]"]
      by (simp add: base64_encode_short b64_clean_chunk [symmetric] chunks_clean_chunk)
  next
    case (4 a b c r)
    have len: "length (b64_clean (encode_chunk [a, b, c])) = 4"
      by (simp add: length_clean_chunk)
    have dec: "decode_chunk (b64_clean (encode_chunk [a, b, c])) = Some [a, b, c]"
      using decode_chunk3 [of a b c] by (simp add: b64_clean_def encode_chunk_def Let_def)
    from less [of r] 4 show ?thesis
      by (simp add: base64_encode_step chunks_append len dec)
  qed
qed

text \<open>C37: The filter decoder inverts the partition-value encoder on every byte string, padding included.\<close>

theorem b64_roundtrip: "b64_decode (base64_encode bs) = Some bs"
  using b64_encode_clean [of bs] by (simp add: b64_decode_def Let_def)

end
