(* ===== verification/Envelope.thy ===== *)
theory Envelope
  imports VGI_Prelude
begin

text \<open>
  What the envelopes of the worker crate share: the contract of the external
  \<open>vgi_rpc::crypto\<close> authenticated encryption they are built on, and the caller-identity tail
  every associated-data string ends in (\<open>src/vgi/src/split_token.rs\<close> and
  \<open>src/vgi/src/opaque.rs\<close>).
\<close>

section \<open>The external authenticated encryption\<close>

text \<open>
  \<open>seal_bytes(plaintext, key, aad, version)\<close> draws a random nonce, which is the first argument
  here; \<open>open_bytes\<close> reports a displayable error.
\<close>

type_synonym nonce = bytes
type_synonym seal_fn = "nonce \<Rightarrow> bytes \<Rightarrow> bytes \<Rightarrow> bytes \<Rightarrow> byte \<Rightarrow> bytes"
type_synonym open_fn = "bytes \<Rightarrow> bytes \<Rightarrow> bytes \<Rightarrow> byte \<Rightarrow> string + bytes"

text \<open>
  Opening what was sealed, under the same key, associated data and version, gives it back, and an
  envelope is never empty (it starts with its version byte).
\<close>

definition aead_correct :: "seal_fn \<Rightarrow> open_fn \<Rightarrow> bool" where
  "aead_correct seal opn \<longleftrightarrow>
     (\<forall>n p k a v. opn (seal n p k a v) k a v = Inr p \<and> seal n p k a v \<noteq> [])"

text \<open>
  Authenticity, idealised: nothing opens but what was sealed under the very same key,
  associated data and version.
\<close>

definition aead_authentic :: "seal_fn \<Rightarrow> open_fn \<Rightarrow> bool" where
  "aead_authentic seal opn \<longleftrightarrow>
     (\<forall>c k a v p. opn c k a v = Inr p \<longrightarrow> (\<exists>n. c = seal n p k a v))
     \<and> (\<forall>n p k a v n' p' a' v'. seal n p k a v = seal n' p' k a' v' \<longrightarrow> p = p' \<and> a = a' \<and> v = v')"

lemma aead_correctD: "aead_correct seal opn \<Longrightarrow> opn (seal n p k a v) k a v = Inr p"
  by (simp add: aead_correct_def)

lemma aead_nonempty: "aead_correct seal opn \<Longrightarrow> seal n p k a v \<noteq> []"
  by (simp add: aead_correct_def)

lemma aead_authenticD:
  "aead_authentic seal opn \<Longrightarrow> opn c k a v = Inr p \<Longrightarrow> \<exists>n. c = seal n p k a v"
  unfolding aead_authentic_def by blast

lemma aead_authentic_inj:
  "aead_authentic seal opn \<Longrightarrow> seal n p k a v = seal n' p' k a' v' \<Longrightarrow> p = p' \<and> a = a' \<and> v = v'"
  unfolding aead_authentic_def by blast

lemma aead_other_aad:
  assumes "aead_authentic seal opn" "a \<noteq> a' \<or> v \<noteq> v'"
  shows "\<exists>e. opn (seal n p k a v) k a' v' = Inl e"
proof (cases "opn (seal n p k a v) k a' v'")
  case (Inr q)
  with assms(1) obtain n' where "seal n p k a v = seal n' q k a' v'"
    by (auto dest: aead_authenticD)
  with assms show ?thesis by (blast dest: aead_authentic_inj)
qed auto

text \<open>
  A concrete pair of functions with both contracts: every part is written down behind its
  length. It encrypts nothing, and shows that the contracts are satisfiable together.
\<close>

definition frame :: "bytes \<Rightarrow> bytes" where
  "frame x = replicate (length x) 1 @ 0 # x"

fun unframe_len :: "bytes \<Rightarrow> nat \<Rightarrow> (nat \<times> bytes) option" where
  "unframe_len [] n = None"
| "unframe_len (b # bs) n = (if b = 0 then Some (n, bs) else unframe_len bs (Suc n))"

definition clear_seal :: seal_fn where
  "clear_seal n p k a v = v # frame k @ frame a @ p"

definition clear_open :: open_fn where
  "clear_open c k a v =
     (case strip_prefix (v # frame k @ frame a) c of None \<Rightarrow> Inl ''authentication failed'' | Some p \<Rightarrow> Inr p)"

lemma replicate_one_zero:
  "replicate m 1 @ 0 # xs = replicate n 1 @ (0 :: byte) # ys \<longleftrightarrow> m = n \<and> xs = ys"
proof (induction m arbitrary: n)
  case 0
  show ?case by (cases n) auto
next
  case (Suc m)
  then show ?case by (cases n) auto
qed

lemma frame_append_inject: "frame x @ r = frame y @ s \<longleftrightarrow> x = y \<and> r = s"
  by (auto simp: frame_def replicate_one_zero)

lemma clear_aead_correct: "aead_correct clear_seal clear_open"
proof -
  have "strip_prefix (v # frame k @ frame a) (v # frame k @ frame a @ p) = Some p" for v k a p
    using strip_prefix_append [of "v # frame k @ frame a" p] by simp
  then show ?thesis
    by (simp add: aead_correct_def clear_seal_def clear_open_def)
qed

lemma clear_open_iff: "clear_open c k a v = Inr p \<longleftrightarrow> c = clear_seal n p k a v"
proof -
  have "clear_open c k a v = Inr p \<longleftrightarrow> strip_prefix (v # frame k @ frame a) c = Some p"
    unfolding clear_open_def by (cases "strip_prefix (v # frame k @ frame a) c") simp_all
  then show ?thesis unfolding strip_prefix_Some_iff by (simp add: clear_seal_def)
qed

lemma clear_seal_inject:
  "clear_seal n p k a v = clear_seal n' p' k a' v' \<Longrightarrow> p = p' \<and> a = a' \<and> v = v'"
  by (simp add: clear_seal_def frame_append_inject)

lemma clear_aead_authentic: "aead_authentic clear_seal clear_open"
  unfolding aead_authentic_def using clear_open_iff clear_seal_inject by blast

section \<open>Caller identity\<close>

text \<open>\<open>Option<(&str, &str)>\<close>: the domain and principal of an authenticated caller.\<close>

type_synonym auth = "(string \<times> string) option"

definition identity_tail :: "auth \<Rightarrow> bytes" where
  "identity_tail auth =
     (case auth of
        None \<Rightarrow> 0 # as_bytes ''anonymous''
      | Some (domain, prin) \<Rightarrow> [1] @ as_bytes domain @ [0] @ as_bytes prin)"

text \<open>A domain without a NUL character, the case in which the tail determines the caller.\<close>

definition nul_free :: "string \<Rightarrow> bool" where
  "nul_free s \<longleftrightarrow> CHR 0x00 \<notin> set s"

definition domain_nul_free :: "auth \<Rightarrow> bool" where
  "domain_nul_free auth \<longleftrightarrow> (case auth of None \<Rightarrow> True | Some (d, p) \<Rightarrow> nul_free d)"

lemma of_char_zero: "(of_char c :: byte) = 0 \<longleftrightarrow> c = CHR 0x00"
proof -
  have "as_bytes [c] = as_bytes [CHR 0x00] \<longleftrightarrow> c = CHR 0x00"
    by (simp only: as_bytes_inject list.inject simp_thms)
  then show ?thesis by (simp add: as_bytes_def)
qed

lemma as_bytes_zero: "0 \<in> set (as_bytes s) \<longleftrightarrow> CHR 0x00 \<in> set s"
  by (induction s) (simp_all add: as_bytes_def of_char_zero eq_commute [of 0] eq_commute [of "CHR 0x00"])

lemma nul_split:
  "0 \<notin> set x \<Longrightarrow> 0 \<notin> set y \<Longrightarrow> x @ (0 :: byte) # r = y @ 0 # s \<longleftrightarrow> x = y \<and> r = s"
proof (induction x arbitrary: y)
  case Nil
  then show ?case by (cases y) auto
next
  case (Cons a x)
  then show ?case by (cases y) auto
qed

lemma identity_tail_authenticated:
  "nul_free d \<Longrightarrow> nul_free d' \<Longrightarrow>
     identity_tail (Some (d, p)) = identity_tail (Some (d', p')) \<longleftrightarrow> d = d' \<and> p = p'"
  by (simp add: identity_tail_def nul_free_def nul_split as_bytes_zero)

lemma identity_tail_anonymous:
  "identity_tail None \<noteq> identity_tail (Some x)" "identity_tail (Some x) \<noteq> identity_tail None"
  by (simp_all add: identity_tail_def split: prod.split)

lemma identity_tail_inject:
  assumes "domain_nul_free a" "domain_nul_free b"
  shows "identity_tail a = identity_tail b \<longleftrightarrow> a = b"
proof (cases a)
  case None
  then show ?thesis by (cases b) (simp_all add: identity_tail_anonymous)
next
  case (Some x)
  with assms show ?thesis
    by (cases b; cases x)
       (auto simp: identity_tail_anonymous identity_tail_authenticated domain_nul_free_def)
qed

text \<open>The \<open>AuthContext\<close> of the RPC crate, as far as the worker reads it.\<close>

record auth_context =
  authenticated :: bool
  auth_domain :: string
  auth_principal :: string

end
