(* ===== verification/Split_Token.thy ===== *)
theory Split_Token
  imports Envelope
begin

unbundle bit_operations_syntax

text \<open>
  The split-token envelope of \<open>src/vgi/src/split_token.rs\<close>: a plaintext header (version,
  flags, anchor length, bind fingerprint, consistency anchor) followed by the worker's payload,
  sealed when the worker holds a signing key. The AEAD functions and SHA-256 are parameters.
\<close>

section \<open>Constants and errors\<close>

definition SPLIT_TOKEN_FORMAT_VERSION :: byte where "SPLIT_TOKEN_FORMAT_VERSION = 1"
definition FLAG_PAYLOAD_SEALED :: byte where "FLAG_PAYLOAD_SEALED = 0x01"
definition RESERVED_FLAGS_MASK :: byte where "RESERVED_FLAGS_MASK = 0xFE"
definition FINGERPRINT_LEN :: nat where "FINGERPRINT_LEN = 16"
definition HEADER_LEN :: nat where "HEADER_LEN = 4 + FINGERPRINT_LEN"
definition SEAL_VERSION :: byte where "SEAL_VERSION = 1"
definition AAD_PREFIX :: bytes where "AAD_PREFIX = as_bytes ''vgi.split_token.v1'' @ [0]"

datatype split_token_error =
    Invalid string
  | SnapshotExpired string
  | TransactionEnded string

fun kind :: "split_token_error \<Rightarrow> string" where
  "kind (Invalid m) = ''SPLIT_TOKEN_INVALID''"
| "kind (SnapshotExpired m) = ''SPLIT_SNAPSHOT_EXPIRED''"
| "kind (TransactionEnded m) = ''SPLIT_TRANSACTION_ENDED''"

section \<open>Fingerprint and associated data\<close>

definition feed :: "bytes \<Rightarrow> bytes \<Rightarrow> bytes" where
  "feed label val = label @ [0] @ val @ [0]"

text \<open>The bytes fed to the hash, in the order of the \<open>update\<close> calls.\<close>

definition fingerprint_input :: "string list \<Rightarrow> string \<Rightarrow> bytes \<Rightarrow> bytes \<Rightarrow> bytes \<Rightarrow> bytes" where
  "fingerprint_input schema_path function_name arguments settings projection =
     AAD_PREFIX
     @ concat (map (\<lambda>c. feed (as_bytes ''schema_path_component'') (as_bytes c)) schema_path)
     @ feed (as_bytes ''function_name'') (as_bytes function_name)
     @ feed (as_bytes ''arguments'') arguments
     @ feed (as_bytes ''settings'') settings
     @ feed (as_bytes ''projection_ids'') projection"

definition bind_fingerprint ::
    "(bytes \<Rightarrow> bytes) \<Rightarrow> string list \<Rightarrow> string \<Rightarrow> bytes \<Rightarrow> bytes \<Rightarrow> bytes \<Rightarrow> bytes" where
  "bind_fingerprint sha256 schema_path function_name arguments settings projection =
     take FINGERPRINT_LEN
       (sha256 (fingerprint_input schema_path function_name arguments settings projection))"

definition split_token_aad :: "bytes \<Rightarrow> auth \<Rightarrow> bytes" where
  "split_token_aad header auth = header @ identity_tail auth"

section \<open>Build and open\<close>

definition token_header :: "bool \<Rightarrow> bytes \<Rightarrow> bytes \<Rightarrow> bytes" where
  "token_header keyed fingerprint anchor =
     [SPLIT_TOKEN_FORMAT_VERSION, if keyed then FLAG_PAYLOAD_SEALED else 0]
     @ le_bytes 2 (length anchor) @ fingerprint @ anchor"

definition build_split_token ::
    "seal_fn \<Rightarrow> nonce \<Rightarrow> bytes \<Rightarrow> bytes \<Rightarrow> bytes \<Rightarrow> bytes option \<Rightarrow> auth
       \<Rightarrow> split_token_error + bytes" where
  "build_split_token seal n payload fingerprint anchor signing_key auth =
     (if length fingerprint \<noteq> FINGERPRINT_LEN then
        Inl (Invalid (''bind_fingerprint must be 16 bytes, got '' @ show_nat (length fingerprint)))
      else if length anchor > 65535 then
        Inl (Invalid (''consistency_anchor too long: '' @ show_nat (length anchor) @ '' bytes exceeds u16''))
      else
        (let body = token_header (signing_key \<noteq> None) fingerprint anchor in
         case signing_key of
           None \<Rightarrow> Inr (body @ payload)
         | Some key \<Rightarrow>
             Inr (body @ seal n payload key (split_token_aad body auth) SEAL_VERSION)))"

definition open_split_token ::
    "open_fn \<Rightarrow> bytes \<Rightarrow> bytes option \<Rightarrow> auth \<Rightarrow> bytes option \<Rightarrow> bytes option
       \<Rightarrow> split_token_error + bytes" where
  "open_split_token opn token signing_key auth expected_fingerprint current_anchor =
     (if length token < HEADER_LEN then
        Inl (Invalid (''split token too short: '' @ show_nat (length token) @ '' bytes, need at least 20''))
      else
        (let version = token ! 0;
             flags = token ! 1;
             anchor_len = le_nat [token ! 2, token ! 3];
             sealed = (flags AND FLAG_PAYLOAD_SEALED \<noteq> 0);
             end_of_anchor = HEADER_LEN + anchor_len
         in
         if version \<noteq> SPLIT_TOKEN_FORMAT_VERSION then
           Inl (Invalid (''unsupported split-token format_version '' @ show_nat (unat version)
                         @ ''; this worker speaks 1''))
         else if flags AND RESERVED_FLAGS_MASK \<noteq> 0 then
           Inl (Invalid (''split token sets reserved flag bits (flags=0x'' @ hex2 flags @ '')''))
         else if signing_key \<noteq> None \<and> \<not> sealed then
           Inl (Invalid (''split token is unsealed but this worker holds a signing key; refusing. An ''
              @ ''unsealed token cannot be authenticated, so accepting one here would let any ''
              @ ''caller forge a split (alg:none).''))
         else if signing_key = None \<and> sealed then
           Inl (Invalid ''split token is sealed but this worker holds no signing key; cannot open it'')
         else if length token < end_of_anchor then
           Inl (Invalid (''split token truncated: anchor_len='' @ show_nat anchor_len
                         @ '' exceeds token length '' @ show_nat (length token)))
         else
           (let fingerprint = drop 4 (take HEADER_LEN token);
                anchor = drop HEADER_LEN (take end_of_anchor token);
                body = take end_of_anchor token;
                rest = drop end_of_anchor token
            in
            if (case expected_fingerprint of None \<Rightarrow> False | Some expected \<Rightarrow> fingerprint \<noteq> expected) then
              Inl (Invalid ''split token was minted for a different bind (fingerprint mismatch)'')
            else if (case current_anchor of None \<Rightarrow> False | Some current \<Rightarrow> anchor \<noteq> current) then
              Inl (SnapshotExpired ''split snapshot expired; re-run the query'')
            else
              (case signing_key of
                 None \<Rightarrow> Inr rest
               | Some key \<Rightarrow>
                   map_err (\<lambda>e. Invalid (''split token failed authentication: '' @ e))
                     (opn rest key (split_token_aad body auth) SEAL_VERSION)))))"

definition split_anchor :: "int \<Rightarrow> bytes" where
  "split_anchor catalog_version = i64_le_bytes catalog_version"

section \<open>The header\<close>

lemmas token_consts = SPLIT_TOKEN_FORMAT_VERSION_def FLAG_PAYLOAD_SEALED_def RESERVED_FLAGS_MASK_def
  FINGERPRINT_LEN_def HEADER_LEN_def SEAL_VERSION_def

lemma flags_cases: "flags AND (0xFE :: byte) = 0 \<longleftrightarrow> flags = 0 \<or> flags = 1"
proof
  assume *: "flags AND (0xFE :: byte) = 0"
  have "flags = flags AND 1 OR flags AND (0xFE :: byte)"
    by (rule bit_word_eqI) (simp add: bit_simps; erule less8_cases; simp)
  with * have "flags = flags AND 1" by simp
  also have "flags AND 1 = of_bool (odd flags)" by (simp add: and_one_eq mod_2_eq_odd)
  finally show "flags = 0 \<or> flags = 1" by (cases "odd flags") simp_all
qed auto

lemma length_token_header [simp]:
  "length (token_header keyed fp an) = 4 + length fp + length an"
  by (simp add: token_header_def)

lemma four_bytes:
  assumes "20 \<le> length token"
  obtains a b c d r where "token = a # b # c # d # r" "16 \<le> length r"
proof -
  from assms obtain a b c d r where "token = a # b # c # d # r"
    by (cases token; cases "tl token"; cases "tl (tl token)"; cases "tl (tl (tl token))") auto
  with assms that show ?thesis by simp
qed

text \<open>Every token that passes the format checks is a header followed by the rest.\<close>

lemma token_header_view:
  assumes "20 \<le> length token" "token ! 0 = 1" "token ! 1 = (if keyed then 1 else 0)"
    and an: "an = le_nat [token ! 2, token ! 3]" and "20 + an \<le> length token"
  shows "take (20 + an) token
           = token_header keyed (drop 4 (take 20 token)) (drop 20 (take (20 + an) token))"
proof -
  obtain a b c d r where t: "token = a # b # c # d # r" and r: "16 \<le> length r"
    using four_bytes [OF assms(1)] .
  have "le_bytes 2 an = [c, d]"
    using an t le_bytes_le_nat [of "[c, d]" 2] by simp
  moreover have "min (length r - 16) an = an"
    using assms(5) t by simp
  ultimately show ?thesis
    unfolding take_add using assms(2,3) t r
    by (simp add: token_header_def token_consts)
qed

lemma token_header_nth:
  "(token_header keyed fp an @ r) ! 0 = 1"
  "(token_header keyed fp an @ r) ! Suc 0 = (if keyed then 1 else 0)"
  by (simp_all add: token_header_def token_consts)

lemma token_header_anchor_len:
  assumes "length an \<le> 65535"
  shows "le_nat [(token_header keyed fp an @ r) ! 2, (token_header keyed fp an @ r) ! 3] = length an"
proof -
  have "le_bytes 2 (length an) = [le_bytes 2 (length an) ! 0, le_bytes 2 (length an) ! 1]"
    by (rule nth_equalityI) (auto simp: less_Suc_eq numeral_2_eq_2)
  then have "[(token_header keyed fp an @ r) ! 2, (token_header keyed fp an @ r) ! 3]
      = le_bytes 2 (length an)"
    by (simp add: token_header_def nth_append)
  moreover have "le_nat (le_bytes 2 (length an)) = length an"
    using assms by (simp add: le_nat_le_bytes)
  ultimately show ?thesis by simp
qed

lemma token_header_parts:
  assumes "length fp = 16"
  shows "drop 4 (take 20 (token_header keyed fp an @ r)) = fp"
    "drop 20 (token_header keyed fp an) = an"
    "take (20 + length an) (token_header keyed fp an @ r) = token_header keyed fp an"
    "drop (20 + length an) (token_header keyed fp an @ r) = r"
proof -
  show "drop 4 (take 20 (token_header keyed fp an @ r)) = fp" "drop 20 (token_header keyed fp an) = an"
    using assms by (simp_all add: token_header_def)
qed (use assms in simp_all)

text \<open>Opening a well-formed token is the two binding checks, then the payload.\<close>

definition open_body ::
    "open_fn \<Rightarrow> bytes \<Rightarrow> bytes \<Rightarrow> bytes \<Rightarrow> bytes option \<Rightarrow> auth \<Rightarrow> bytes option \<Rightarrow> bytes option
       \<Rightarrow> split_token_error + bytes" where
  "open_body opn fp an rest signing_key auth expected current =
     (if expected \<noteq> None \<and> expected \<noteq> Some fp then
        Inl (Invalid ''split token was minted for a different bind (fingerprint mismatch)'')
      else if current \<noteq> None \<and> current \<noteq> Some an then
        Inl (SnapshotExpired ''split snapshot expired; re-run the query'')
      else
        (case signing_key of
           None \<Rightarrow> Inr rest
         | Some key \<Rightarrow>
             map_err (\<lambda>e. Invalid (''split token failed authentication: '' @ e))
               (opn rest key (split_token_aad (token_header True fp an) auth) SEAL_VERSION)))"

lemma open_split_token_header:
  assumes fp: "length fp = 16" and an: "length an \<le> 65535" and keyed: "keyed = (key \<noteq> None)"
  shows "open_split_token opn (token_header keyed fp an @ rest) key auth expected current
           = open_body opn fp an rest key auth expected current"
  unfolding open_split_token_def Let_def token_consts
  using fp keyed
  by (cases expected; cases current; cases key)
     (auto simp: token_header_nth token_header_anchor_len [OF an] token_header_parts
      open_body_def flags_cases token_consts
      simp del: le_nat.simps take_append drop_append)

lemma open_split_token_cases:
  obtains
    (malformed) m where "open_split_token opn token key auth expected current = Inl (Invalid m)"
  | (header) fp an rest where "token = token_header (key \<noteq> None) fp an @ rest"
      "length fp = 16" "length an \<le> 65535"
      "open_split_token opn token key auth expected current
         = open_body opn fp an rest key auth expected current"
proof -
  let ?an = "le_nat [token ! 2, token ! 3]"
  show thesis
  proof (cases "20 \<le> length token \<and> token ! 0 = 1 \<and> token ! 1 = (if key \<noteq> None then 1 else 0)
      \<and> 20 + ?an \<le> length token")
    case True
    then have "token = token_header (key \<noteq> None) (drop 4 (take 20 token))
        (drop 20 (take (20 + ?an) token)) @ drop (20 + ?an) token"
      using token_header_view [of token "key \<noteq> None" ?an]
        append_take_drop_id [of "20 + ?an" token] by simp
    moreover have "?an \<le> 65535"
      using le_nat_bound [of "[token ! 2, token ! 3]"] by simp
    ultimately show thesis using True header open_split_token_header by auto
  next
    case False
    then have "\<exists>m. open_split_token opn token key auth expected current = Inl (Invalid m)"
      by (auto simp: open_split_token_def Let_def token_consts flags_cases not_le split: if_splits)
    then show thesis using malformed by blast
  qed
qed

section \<open>Round trip, authenticity and error kinds\<close>

lemma open_body_Inr_iff:
  "open_body opn fp an rest key auth expected current = Inr p \<longleftrightarrow>
     (expected = None \<or> expected = Some fp) \<and> (current = None \<or> current = Some an) \<and>
     (case key of None \<Rightarrow> p = rest
      | Some k \<Rightarrow> opn rest k (split_token_aad (token_header True fp an) auth) 1 = Inr p)"
  by (cases key) (auto simp: open_body_def map_err_eq_Inr_iff SEAL_VERSION_def)

lemma open_body_expired_iff:
  "open_body opn fp an rest key auth expected current = Inl (SnapshotExpired m) \<longleftrightarrow>
     (expected = None \<or> expected = Some fp) \<and> current \<noteq> None \<and> current \<noteq> Some an
     \<and> m = ''split snapshot expired; re-run the query''"
  by (cases key; cases "opn rest (the key) (split_token_aad (token_header True fp an) auth) SEAL_VERSION")
     (auto simp: open_body_def)

lemma build_split_token_Inr_iff:
  "build_split_token seal n payload fp an key auth = Inr tok \<longleftrightarrow>
     length fp = 16 \<and> length an \<le> 65535 \<and>
     tok = token_header (key \<noteq> None) fp an
             @ (case key of None \<Rightarrow> payload
                | Some k \<Rightarrow> seal n payload k (split_token_aad (token_header True fp an) auth) 1)"
  by (auto simp: build_split_token_def Let_def token_consts split: option.splits)

lemma token_header_inject:
  assumes "token_header k fp an @ r = token_header k' fp' an' @ r'"
    and "length fp = 16" "length fp' = 16" "length an \<le> 65535" "length an' \<le> 65535"
  shows "fp = fp' \<and> an = an' \<and> r = r'"
proof -
  have "length an = length an'"
    using assms token_header_anchor_len [of an k fp r] token_header_anchor_len [of an' k' fp' r'] by simp
  with assms show ?thesis by (simp add: token_header_def)
qed

lemma split_token_opened:
  assumes "aead_authentic seal opn"
    and "open_split_token opn tok (Some k) auth expected current = Inr payload"
  shows "\<exists>n fp an. build_split_token seal n payload fp an (Some k) auth = Inr tok
           \<and> (expected = None \<or> expected = Some fp) \<and> (current = None \<or> current = Some an)"
proof (cases rule: open_split_token_cases [of opn tok "Some k" auth expected current])
  case (malformed m)
  with assms show ?thesis by simp
next
  case (header fp an rest)
  from header(4) assms(2)
  have ok: "open_body opn fp an rest (Some k) auth expected current = Inr payload" by simp
  then have "opn rest k (split_token_aad (token_header True fp an) auth) 1 = Inr payload"
    and chk: "expected = None \<or> expected = Some fp" "current = None \<or> current = Some an"
    by (auto simp: open_body_Inr_iff)
  then obtain n where "rest = seal n payload k (split_token_aad (token_header True fp an) auth) 1"
    using assms(1) by (blast dest: aead_authenticD)
  with header have "build_split_token seal n payload fp an (Some k) auth = Inr tok"
    by (simp add: build_split_token_Inr_iff)
  with chk show ?thesis by blast
qed

text \<open>C6: A token the worker builds opens to its own payload: under the same signing key and caller,
  whether or not the fingerprint and the anchor it was stamped with are checked.\<close>

theorem split_token_roundtrip:
  assumes "aead_correct seal opn"
    and "build_split_token seal n payload fp an key auth = Inr tok"
    and "expected = None \<or> expected = Some fp" and "current = None \<or> current = Some an"
  shows "open_split_token opn tok key auth expected current = Inr payload"
proof -
  from assms(2) have "length fp = 16" "length an \<le> 65535"
    and tok: "tok = token_header (key \<noteq> None) fp an
        @ (case key of None \<Rightarrow> payload
           | Some k \<Rightarrow> seal n payload k (split_token_aad (token_header True fp an) auth) 1)"
    unfolding build_split_token_Inr_iff by auto
  then show ?thesis
    unfolding tok using assms(1,3,4)
    by (auto simp: open_split_token_header open_body_Inr_iff aead_correctD split: option.splits)
qed

theorem split_token_roundtrip_witness:
  "open_split_token clear_open
     (projr (build_split_token clear_seal [] [7, 8] (replicate 16 3) [1, 2] (Some [9]) (Some (''d'', ''p''))))
     (Some [9]) (Some (''d'', ''p'')) (Some (replicate 16 3)) (Some [1, 2]) = Inr [7, 8]"
  by (rule split_token_roundtrip [where seal = clear_seal and n = "[]" and fp = "replicate 16 3"
        and an = "[1, 2]"])
     (simp_all add: clear_aead_correct build_split_token_def token_consts Let_def)

text \<open>C9: A worker that holds a key accepts only tokens sealed under that key for that caller: whatever
  bytes it is handed, if it returns a payload then the bytes are exactly a token built for that
  payload and caller, and the checked fingerprint and anchor are the ones stamped into it. In
  particular an unsealed token is never honoured.\<close>

theorem split_token_unforgeable:
  assumes "aead_authentic seal opn"
    and "open_split_token opn tok (Some k) auth expected current = Inr payload"
  shows "\<exists>n fp an. build_split_token seal n payload fp an (Some k) auth = Inr tok
           \<and> (expected = None \<or> expected = Some fp) \<and> (current = None \<or> current = Some an)"
  using assms by (rule split_token_opened)

theorem split_token_unforgeable_witness:
  "\<exists>n fp an. build_split_token clear_seal n [7] fp an (Some [9]) None
      = Inr (token_header True (replicate 16 3) [1]
             @ clear_seal [] [7] [9] (split_token_aad (token_header True (replicate 16 3) [1]) None) 1)
     \<and> (Some (replicate 16 3 :: bytes) = None \<or> Some (replicate 16 3) = Some fp)
     \<and> (Some [1 :: byte] = None \<or> Some [1] = Some an)"
  by (rule split_token_unforgeable [OF clear_aead_authentic])
     (simp add: open_split_token_header open_body_Inr_iff aead_correctD [OF clear_aead_correct])

text \<open>C27: A sealed token cannot be replayed by another caller: a token built for one identity is refused
  when any other identity presents it (identities whose domain holds no NUL character).\<close>

theorem split_token_caller_bound:
  assumes "aead_authentic seal opn"
    and "build_split_token seal n payload fp an (Some k) auth = Inr tok"
    and "auth \<noteq> auth'" "domain_nul_free auth" "domain_nul_free auth'"
  shows "\<exists>e. open_split_token opn tok (Some k) auth' expected current = Inl e"
proof (cases "open_split_token opn tok (Some k) auth' expected current")
  case (Inr p)
  then obtain n' fp' an' where b: "build_split_token seal n' p fp' an' (Some k) auth' = Inr tok"
    using split_token_opened [OF assms(1)] by blast
  let ?c = "seal n payload k (split_token_aad (token_header True fp an) auth) 1"
  let ?c' = "seal n' p k (split_token_aad (token_header True fp' an') auth') 1"
  have "tok = token_header True fp an @ ?c" "length fp = 16" "length an \<le> 65535"
    using assms(2) unfolding build_split_token_Inr_iff by simp_all
  moreover have "tok = token_header True fp' an' @ ?c'" "length fp' = 16" "length an' \<le> 65535"
    using b unfolding build_split_token_Inr_iff by simp_all
  ultimately have eq: "fp = fp'" "an = an'" "?c = ?c'"
    using token_header_inject [of True fp an ?c True fp' an' ?c'] by simp_all
  then have "identity_tail auth = identity_tail auth'"
    using aead_authentic_inj [OF assms(1) eq(3)] by (simp add: split_token_aad_def)
  with assms show ?thesis by (simp add: identity_tail_inject)
qed auto

theorem split_token_caller_bound_witness:
  "\<exists>e. open_split_token clear_open
     (projr (build_split_token clear_seal [] [7] (replicate 16 3) [1] (Some [9]) (Some (''d'', ''alice''))))
     (Some [9]) (Some (''d'', ''bob'')) None None = Inl e"
  by (rule split_token_caller_bound [OF clear_aead_authentic, where n = "[]" and payload = "[7]"
        and fp = "replicate 16 3" and an = "[1]" and auth = "Some (''d'', ''alice'')"])
     (simp_all add: build_split_token_def token_consts Let_def domain_nul_free_def nul_free_def)

text \<open>C29: Expiry is reported exactly when it is the only thing wrong with the plaintext header: the
  token is a well-formed header for this worker's key state, its fingerprint is the expected one
  (when one is checked), and its anchor differs from the current one. Every other refusal is the
  non-retriable kind, whatever the sealed part holds.\<close>

theorem split_token_expired_iff:
  "open_split_token opn tok key auth expected current = Inl (SnapshotExpired m) \<longleftrightarrow>
     (\<exists>fp an rest. tok = token_header (key \<noteq> None) fp an @ rest
        \<and> length fp = 16 \<and> length an \<le> 65535
        \<and> (expected = None \<or> expected = Some fp) \<and> current \<noteq> None \<and> current \<noteq> Some an
        \<and> m = ''split snapshot expired; re-run the query'')"
  (is "?l \<longleftrightarrow> ?r")
proof
  assume ?l
  then show ?r
  proof (cases rule: open_split_token_cases [of opn tok key auth expected current])
    case (malformed m)
    with \<open>?l\<close> show ?thesis by simp
  next
    case (header fp an rest)
    from header(4) \<open>?l\<close>
    have "open_body opn fp an rest key auth expected current = Inl (SnapshotExpired m)" by simp
    with header(1-3) show ?thesis unfolding open_body_expired_iff by blast
  qed
next
  assume ?r
  then show ?l by (auto simp: open_split_token_header open_body_expired_iff)
qed

text \<open>C40: The bytes hashed into the bind fingerprint do not determine the bind: they are delimited by
  NUL bytes that the argument and settings blobs may contain themselves, so two different binds
  have one fingerprint whatever the hash function is.\<close>

theorem bind_fingerprint_collision:
  "bind_fingerprint sha256 path fn (x @ [0] @ as_bytes ''settings'' @ [0] @ y) z proj
     = bind_fingerprint sha256 path fn x (y @ [0] @ as_bytes ''settings'' @ [0] @ z) proj"
  by (simp add: bind_fingerprint_def fingerprint_input_def feed_def)

end
