(* ===== verification/Arrow.thy ===== *)
theory Arrow
  imports VGI_Prelude
begin

text \<open>
  The Arrow values the crates exchange: data types, fields, arrays and record batches of the
  external \<open>arrow\<close> crates, as plain data. An array is its type and one optional scalar per row
  (\<open>None\<close> for a null slot), so \<open>is_null\<close>, \<open>value\<close> and \<open>len\<close> read off the list. The IPC codec and
  the \<open>arrow_cast\<close> kernel stay parameters of the definitions that call them.
\<close>

section \<open>Types\<close>

datatype time_unit = Second | Millisecond | Microsecond | Nanosecond

datatype interval_unit = YearMonth | DayTime | MonthDayNano

datatype data_type =
    Null
  | Boolean
  | Int8 | Int16 | Int32 | Int64
  | UInt8 | UInt16 | UInt32 | UInt64
  | Float16 | Float32 | Float64
  | Timestamp time_unit "string option"
  | Date32 | Date64
  | Time32 time_unit | Time64 time_unit
  | Duration time_unit
  | Interval interval_unit
  | Binary | FixedSizeBinary int | LargeBinary | BinaryView
  | Utf8 | LargeUtf8 | Utf8View
  | List field | ListView field | FixedSizeList field int | LargeList field | LargeListView field
  | Struct "field list"
  | UnionT "field list"
  | Dictionary data_type data_type
  | Decimal32 nat int | Decimal64 nat int | Decimal128 nat int | Decimal256 nat int
  | MapT field bool
  | RunEndEncoded field field
and field =
    Field (field_name: string) (field_type: data_type) (nullable: bool)
      (metadata: "(string \<times> string) list")

section \<open>Values\<close>

text \<open>
  One non-null slot. Integers cover every integer, date, time, timestamp, duration and decimal
  type (their unscaled value); floats keep their IEEE bit pattern.
\<close>

datatype scalar =
    SBool bool
  | SInt int
  | SF16 "16 word"
  | SF32 "32 word"
  | SF64 "64 word"
  | SStr string
  | SBytes bytes
  | SList "scalar option list"
  | SStruct "scalar option list"

record array =
  data_type_of :: data_type
  slots :: "scalar option list"

definition array_len :: "array \<Rightarrow> nat" where
  "array_len a = length (slots a)"

definition is_null :: "array \<Rightarrow> nat \<Rightarrow> bool" where
  "is_null a i \<longleftrightarrow> slots a ! i = None"

record record_batch =
  schema_fields :: "field list"
  columns :: "array list"
  num_rows :: nat

text \<open>\<open>RecordBatch::column_by_name\<close>: the first column of that name.\<close>

definition column_by_name :: "record_batch \<Rightarrow> string \<Rightarrow> array option" where
  "column_by_name b n =
     find_map (\<lambda>(f, c). if field_name f = n then Some c else None) (zip (schema_fields b) (columns b))"

text \<open>The shape \<open>RecordBatch::try_new\<close> enforces, of which the source relies on the lengths and types.\<close>

definition batch_ok :: "record_batch \<Rightarrow> bool" where
  "batch_ok b \<longleftrightarrow>
     length (schema_fields b) = length (columns b)
     \<and> (\<forall>c \<in> set (columns b). array_len c = num_rows b)
     \<and> map field_type (schema_fields b) = map data_type_of (columns b)"

text \<open>
  \<open>downcast_ref::<StringArray>\<close>, \<open><BooleanArray>\<close>, \<open><BinaryArray>\<close>: the array when its type is that
  exact one.
\<close>

definition downcast :: "data_type \<Rightarrow> array \<Rightarrow> array option" where
  "downcast t a = (if data_type_of a = t then Some a else None)"

definition str_value :: "array \<Rightarrow> nat \<Rightarrow> string" where
  "str_value a i = (case slots a ! i of Some (SStr s) \<Rightarrow> s | _ \<Rightarrow> [])"

definition bool_value :: "array \<Rightarrow> nat \<Rightarrow> bool" where
  "bool_value a i = (case slots a ! i of Some (SBool b) \<Rightarrow> b | _ \<Rightarrow> False)"

definition bytes_value :: "array \<Rightarrow> nat \<Rightarrow> bytes" where
  "bytes_value a i = (case slots a ! i of Some (SBytes b) \<Rightarrow> b | _ \<Rightarrow> [])"

section \<open>The external codec and cast\<close>

type_synonym read_batch_fn = "bytes \<Rightarrow> record_batch result"
type_synonym cast_fn = "array \<Rightarrow> data_type \<Rightarrow> string + array"

end
