(* ===== verification/Attach_Ticket.thy ===== *)
theory Attach_Ticket
  imports Complex_Main Envelope Arrow Base64
begin

text \<open>
  Attach tickets, \<open>src/vgi/src/attach_ticket.rs\<close>: the sealed, principal-bound text that stands
  for an attach. The payload codec, the canonical base64url reader, minting and opening. The AEAD, the
  base64url engine, the IPC codec and the random bytes are parameters; times in seconds are
  \<open>i64\<close> (release arithmetic, which wraps) and the clock is an exact rational.
\<close>

section \<open>Constants and errors\<close>

definition ATTACH_TICKET_PREFIX :: string where "ATTACH_TICKET_PREFIX = ''vgia1.''"
definition ATTACH_TICKET_OPTION :: string where "ATTACH_TICKET_OPTION = ''vgi_attach_ticket''"
definition TICKET_ENVELOPE_VERSION :: byte where "TICKET_ENVELOPE_VERSION = 0x01"
definition TICKET_AAD_DOMAIN :: bytes where
  "TICKET_AAD_DOMAIN = as_bytes ''vgi.attach_ticket.v1'' @ [0]"
definition MAX_OPTIONS_BYTES :: nat where "MAX_OPTIONS_BYTES = 16384"
definition MAX_TICKET_CHARS :: nat where "MAX_TICKET_CHARS = 32768"
definition CLOCK_SKEW_SECONDS :: int where "CLOCK_SKEW_SECONDS = 60"
definition MAX_TEXT :: nat where "MAX_TEXT = 65535"

definition attach_ticket_invalid :: "string \<Rightarrow> rpc_error" where
  "attach_ticket_invalid detail =
     RpcError ''AttachTicketInvalidError'' detail (Some ''attach_ticket_invalid'')
       [(ATTACH_TICKET_OPTION, detail)]"

definition attach_ticket_expired :: "string \<Rightarrow> rpc_error" where
  "attach_ticket_expired detail =
     RpcError ''AttachTicketExpiredError'' detail (Some ''attach_ticket_expired'')
       [(ATTACH_TICKET_OPTION, detail)]"

definition invalid_request :: "string \<Rightarrow> (string \<times> string) list \<Rightarrow> rpc_error" where
  "invalid_request msg vs = RpcError ''ValueError'' msg (Some ''invalid_request'') vs"

definition action_denied :: "string \<Rightarrow> rpc_error" where
  "action_denied msg = RpcError ''PermissionError'' msg (Some ''action_denied'') [(''action'', ''seal_attach'')]"

section \<open>Claims and payload\<close>

record attach_ticket_claims =
  issued_at :: int
  expires_at :: int
  ticket_id :: string
  catalog_name :: string
  data_version_spec :: string
  implementation_version :: string
  options_ipc :: bytes

definition attach_ticket_aad :: "string \<Rightarrow> bytes" where
  "attach_ticket_aad who = TICKET_AAD_DOMAIN @ as_bytes who"

definition is_ticket_id :: "string \<Rightarrow> bool" where
  "is_ticket_id v \<longleftrightarrow>
     length v = 32
     \<and> list_all (\<lambda>c. is_ascii_digit c \<or> code CHR ''a'' \<le> code c \<and> code c \<le> code CHR ''f'') v"

definition pack_text :: "bytes \<Rightarrow> string \<Rightarrow> string \<Rightarrow> bytes result" where
  "pack_text out v fld =
     (if length v > MAX_TEXT then Inl (value_error (fld @ '' is longer than 65535 bytes''))
      else Inr (out @ le_bytes 2 (length v) @ as_bytes v))"

definition encode_payload :: "attach_ticket_claims \<Rightarrow> bytes result" where
  "encode_payload claims =
     (if length (options_ipc claims) > MAX_OPTIONS_BYTES then
        Inl (value_error (''options are '' @ show_nat (length (options_ipc claims))
             @ '' bytes; a ticket carries at most 16384''))
      else
        rbind (pack_text (i64_le_bytes (issued_at claims) @ i64_le_bytes (expires_at claims))
                 (ticket_id claims) ''ticket_id'') (\<lambda>out.
        rbind (pack_text out (catalog_name claims) ''catalog_name'') (\<lambda>out.
        rbind (pack_text out (data_version_spec claims) ''data_version_spec'') (\<lambda>out.
        rbind (pack_text out (implementation_version claims) ''implementation_version'') (\<lambda>out.
        Inr (out @ le_bytes 4 (length (options_ipc claims)) @ options_ipc claims))))))"

text \<open>The \<open>Reader\<close> of \<open>decode_payload\<close>: its state is the bytes not yet taken.\<close>

definition rd_take :: "nat \<Rightarrow> bytes \<Rightarrow> (bytes \<times> bytes) result" where
  "rd_take n r =
     (if n > length r then Inl (attach_ticket_invalid ''attach ticket payload is truncated'')
      else Inr (take n r, drop n r))"

definition rd_i64 :: "bytes \<Rightarrow> (int \<times> bytes) result" where
  "rd_i64 r = rbind (rd_take 8 r) (\<lambda>(b, r). Inr (i64_of_le b, r))"

definition rd_text :: "bytes \<Rightarrow> (string \<times> bytes) result" where
  "rd_text r =
     rbind (rd_take 2 r) (\<lambda>(l, r).
     rbind (rd_take (le_nat l) r) (\<lambda>(b, r).
       (case from_utf8 b of
          None \<Rightarrow> Inl (attach_ticket_invalid ''attach ticket payload is not UTF-8'')
        | Some s \<Rightarrow> Inr (s, r))))"

definition check_claims :: "attach_ticket_claims \<Rightarrow> attach_ticket_claims result" where
  "check_claims c =
     (if \<not> is_ticket_id (ticket_id c) then
        Inl (attach_ticket_invalid ''attach ticket id is not 32 lowercase hex'')
      else if catalog_name c = [] then Inl (attach_ticket_invalid ''attach ticket names no catalog'')
      else if expires_at c \<noteq> 0 \<and> expires_at c \<le> issued_at c then
        Inl (attach_ticket_invalid ''attach ticket lifetime is empty'')
      else Inr c)"

definition decode_payload :: "bytes \<Rightarrow> attach_ticket_claims result" where
  "decode_payload payload =
     rbind (rd_i64 payload) (\<lambda>(issued, r).
     rbind (rd_i64 r) (\<lambda>(expires, r).
     rbind (rd_text r) (\<lambda>(tid, r).
     rbind (rd_text r) (\<lambda>(cat, r).
     rbind (rd_text r) (\<lambda>(dvs, r).
     rbind (rd_text r) (\<lambda>(iv, r).
     rbind (rd_take 4 r) (\<lambda>(l, r).
       if le_nat l > MAX_OPTIONS_BYTES then
         Inl (attach_ticket_invalid ''attach ticket options exceed 16 KiB'')
       else
         rbind (rd_take (le_nat l) r) (\<lambda>(opts, r).
           if r \<noteq> [] then Inl (attach_ticket_invalid ''attach ticket payload has trailing bytes'')
           else check_claims
             \<lparr>issued_at = issued, expires_at = expires, ticket_id = tid, catalog_name = cat,
              data_version_spec = dvs, implementation_version = iv, options_ipc = opts\<rparr>))))))))"

section \<open>Canonical base64url\<close>

type_synonym b64_engine = "(bytes \<Rightarrow> string) \<times> (string \<Rightarrow> bytes option) \<times> (string \<Rightarrow> bytes option)"

text \<open>
  The engine is (encoder, strict decoder, decoder that allows trailing bits), all of the external
  \<open>base64\<close> crate.
\<close>

definition b64url :: "b64_engine \<Rightarrow> bytes \<Rightarrow> string" where
  "b64url E = fst E"

definition b64url_strict :: "b64_engine \<Rightarrow> string \<Rightarrow> bytes result" where
  "b64url_strict E txt =
     (if \<not> (txt \<noteq> [] \<and> list_all (\<lambda>c. is_ascii_alphanumeric c \<or> c = CHR ''-'' \<or> c = CHR ''_'') txt)
         \<or> length txt mod 4 = 1 then
        Inl (attach_ticket_invalid ''attach ticket is not unpadded base64url'')
      else
        (case (case fst (snd E) txt of Some raw \<Rightarrow> Some raw | None \<Rightarrow> snd (snd E) txt) of
           None \<Rightarrow> Inl (attach_ticket_invalid ''attach ticket is not unpadded base64url'')
         | Some raw \<Rightarrow>
             if b64url E raw \<noteq> txt then
               Inl (attach_ticket_invalid ''attach ticket is not canonical base64url'')
             else Inr raw))"

section \<open>Minting and opening\<close>

definition mint_with_nonce ::
    "seal_fn \<Rightarrow> b64_engine \<Rightarrow> bytes \<Rightarrow> string \<Rightarrow> attach_ticket_claims \<Rightarrow> nonce \<Rightarrow> string result" where
  "mint_with_nonce seal E signing_key who claims nonce =
     (if who = [] then Inl (value_error ''a ticket needs a principal'')
      else if catalog_name claims = [] then Inl (value_error ''a ticket needs a catalog name'')
      else if \<not> is_ticket_id (ticket_id claims) then
        Inl (value_error ''ticket_id must be 32 lowercase hex'')
      else if expires_at claims \<noteq> 0 \<and> expires_at claims \<le> issued_at claims then
        Inl (value_error ''expires_at must be 0 or after issued_at'')
      else
        rbind (encode_payload claims) (\<lambda>payload.
          let envelope = seal nonce payload signing_key (attach_ticket_aad who) TICKET_ENVELOPE_VERSION;
              token = ATTACH_TICKET_PREFIX @ b64url E envelope
          in if length token > MAX_TICKET_CHARS then
               Inl (value_error (''the ticket would be '' @ show_nat (length token)
                    @ '' characters; at most 32768 are accepted''))
             else Inr token))"

definition new_ticket_id :: "bytes \<Rightarrow> string" where
  "new_ticket_id raw = concat (map hex2 raw)"

text \<open>
  The lifetime check of \<open>open_attach_ticket\<close>. The sum is the release build's, which wraps; a build
  with overflow checks panics there instead. The comparisons are exact where the code's \<open>f64\<close> rounds
  seconds beyond \<open>2 ^ 53\<close>.
\<close>

definition check_lifetime :: "rat \<Rightarrow> attach_ticket_claims \<Rightarrow> attach_ticket_claims result" where
  "check_lifetime now claims =
     (if of_int (issued_at claims) > now + of_int CLOCK_SKEW_SECONDS then
        Inl (attach_ticket_expired ''attach ticket is not yet valid'')
      else if expires_at claims \<noteq> 0
              \<and> now \<ge> of_int (i64_wrap (expires_at claims + CLOCK_SKEW_SECONDS)) then
        Inl (attach_ticket_expired ''attach ticket has expired'')
      else Inr claims)"

definition open_attach_ticket ::
    "open_fn \<Rightarrow> b64_engine \<Rightarrow> bytes \<Rightarrow> string \<Rightarrow> string option \<Rightarrow> rat \<Rightarrow> attach_ticket_claims result" where
  "open_attach_ticket opn E signing_key token caller now =
     (case strip_prefix ATTACH_TICKET_PREFIX token of
        None \<Rightarrow> Inl (attach_ticket_invalid ''not an attach ticket'')
      | Some body \<Rightarrow>
          if length token > MAX_TICKET_CHARS then
            Inl (attach_ticket_invalid ''attach ticket is too long'')
          else
            rbind (b64url_strict E body) (\<lambda>envelope.
              if caller = None \<or> caller = Some [] then
                Inl (attach_ticket_invalid ''an anonymous caller cannot redeem an attach ticket'')
              else
                rbind (map_err (\<lambda>_. attach_ticket_invalid ''attach ticket failed verification'')
                         (opn envelope signing_key (attach_ticket_aad (the caller)) TICKET_ENVELOPE_VERSION))
                  (\<lambda>payload. rbind (decode_payload payload) (check_lifetime now))))"

section \<open>The payload codec is exact\<close>

lemma rd_take_iff [result_simps]: "rd_take n r = Inr (a, b) \<longleftrightarrow> r = a @ b \<and> length a = n"
  by (auto simp: rd_take_def)

lemma rd_i64_iff [result_simps]:
  "rd_i64 r = Inr (v, r') \<longleftrightarrow> i64_range v \<and> r = i64_le_bytes v @ r'"
  by (auto simp: rd_i64_def rbind_eq_Inr_iff rd_take_iff i64_le_of_le i64_of_le_roundtrip
      intro: exI [of _ "i64_le_bytes v"])

lemma le_nat_u16: "length l = 2 \<Longrightarrow> le_nat l \<le> MAX_TEXT"
  using le_nat_bound [of l] by (simp add: MAX_TEXT_def)

lemma rd_text_iff [result_simps]:
  "rd_text r = Inr (s, r') \<longleftrightarrow>
     rust_str s \<and> length s \<le> MAX_TEXT \<and> r = le_bytes 2 (length s) @ as_bytes s @ r'"
  (is "?l \<longleftrightarrow> ?r")
proof
  assume ?l
  then obtain l b where "length l = 2" "length b = le_nat l" "from_utf8 b = Some s" "r = l @ b @ r'"
    by (auto simp: rd_text_def rbind_eq_Inr_iff rd_take_iff split: option.splits)
  moreover from this have "as_bytes s = b" "rust_str s" "length s = le_nat l"
    by (auto dest!: from_utf8_SomeD)
  ultimately show ?r by (simp add: le_bytes_le_nat le_nat_u16)
next
  assume ?r
  then show ?l
    by (auto simp: rd_text_def rd_take_def MAX_TEXT_def le_nat_le_bytes)
qed

definition claims_ok :: "attach_ticket_claims \<Rightarrow> bool" where
  "claims_ok c \<longleftrightarrow>
     i64_range (issued_at c) \<and> i64_range (expires_at c)
     \<and> rust_str (ticket_id c) \<and> rust_str (catalog_name c)
     \<and> rust_str (data_version_spec c) \<and> rust_str (implementation_version c)"

definition claims_valid :: "attach_ticket_claims \<Rightarrow> bool" where
  "claims_valid c \<longleftrightarrow>
     is_ticket_id (ticket_id c) \<and> catalog_name c \<noteq> []
     \<and> (expires_at c = 0 \<or> issued_at c < expires_at c)"

definition text_bytes :: "string \<Rightarrow> bytes" where
  "text_bytes s = le_bytes 2 (length s) @ as_bytes s"

lemma encode_payload_iff:
  "encode_payload c = Inr p \<longleftrightarrow>
     length (options_ipc c) \<le> MAX_OPTIONS_BYTES
     \<and> length (ticket_id c) \<le> MAX_TEXT \<and> length (catalog_name c) \<le> MAX_TEXT
     \<and> length (data_version_spec c) \<le> MAX_TEXT \<and> length (implementation_version c) \<le> MAX_TEXT
     \<and> p = i64_le_bytes (issued_at c) @ i64_le_bytes (expires_at c)
           @ text_bytes (ticket_id c) @ text_bytes (catalog_name c)
           @ text_bytes (data_version_spec c) @ text_bytes (implementation_version c)
           @ le_bytes 4 (length (options_ipc c)) @ options_ipc c"
  by (auto simp: encode_payload_def pack_text_def rbind_eq_Inr_iff text_bytes_def)

lemma check_claims_iff: "check_claims c = Inr d \<longleftrightarrow> d = c \<and> claims_valid c"
  by (auto simp: check_claims_def claims_valid_def)

lemma decode_payload_inverse:
  "decode_payload p = Inr c \<longleftrightarrow> claims_ok c \<and> claims_valid c \<and> encode_payload c = Inr p"
  (is "?l \<longleftrightarrow> ?r")
proof
  assume ?l
  then obtain l where l: "length l = 4" "length (options_ipc c) = le_nat l"
    and "le_nat l \<le> MAX_OPTIONS_BYTES" "claims_ok c" "claims_valid c"
    "length (ticket_id c) \<le> MAX_TEXT" "length (catalog_name c) \<le> MAX_TEXT"
    "length (data_version_spec c) \<le> MAX_TEXT" "length (implementation_version c) \<le> MAX_TEXT"
    "p = i64_le_bytes (issued_at c) @ i64_le_bytes (expires_at c)
         @ text_bytes (ticket_id c) @ text_bytes (catalog_name c)
         @ text_bytes (data_version_spec c) @ text_bytes (implementation_version c)
         @ l @ options_ipc c"
    by (auto simp: decode_payload_def rbind_eq_Inr_iff rd_take_iff rd_i64_iff rd_text_iff
        check_claims_iff text_bytes_def claims_ok_def split: if_splits)
  then show ?r by (simp add: encode_payload_iff le_bytes_le_nat)
next
  assume r: ?r
  then have p: "p = i64_le_bytes (issued_at c) @ i64_le_bytes (expires_at c)
         @ text_bytes (ticket_id c) @ text_bytes (catalog_name c)
         @ text_bytes (data_version_spec c) @ text_bytes (implementation_version c)
         @ le_bytes 4 (length (options_ipc c)) @ options_ipc c"
    and len: "length (options_ipc c) \<le> MAX_OPTIONS_BYTES"
    by (simp_all add: encode_payload_iff)
  from len have n: "le_nat (le_bytes 4 (length (options_ipc c))) = length (options_ipc c)"
    by (simp add: le_nat_le_bytes MAX_OPTIONS_BYTES_def)
  have i: "rd_i64 (i64_le_bytes v @ x) = Inr (v, x)" if "i64_range v" for v x
    using that by (simp add: rd_i64_iff)
  have t: "rd_text (text_bytes v @ x) = Inr (v, x)" if "rust_str v" "length v \<le> MAX_TEXT" for v x
    using that by (simp add: rd_text_iff text_bytes_def)
  have k: "rd_take 4 (le_bytes 4 m @ x) = Inr (le_bytes 4 m, x)" "rd_take (length x) x = Inr (x, [])" for m x
    by (simp_all add: rd_take_iff)
  from r show ?l
    unfolding p decode_payload_def
    by (simp add: i t claims_ok_def encode_payload_iff k n check_claims_iff claims_valid_def)
qed

text \<open>C17: The strict payload parser accepts exactly what the encoder writes: a byte string decodes to
  claims if and only if they are valid claims over machine values and UTF-8 text and the byte
  string is their encoding. So decoding inverts encoding, and no two payloads carry one set of
  claims.\<close>

theorem decode_payload_exact:
  "decode_payload p = Inr c \<longleftrightarrow> claims_ok c \<and> claims_valid c \<and> encode_payload c = Inr p"
  by (rule decode_payload_inverse)

section \<open>Base64url\<close>

text \<open>What the minting side relies on of the external engine.\<close>

definition b64url_char :: "char \<Rightarrow> bool" where
  "b64url_char c \<longleftrightarrow> is_ascii_alphanumeric c \<or> c = CHR ''-'' \<or> c = CHR ''_''"

definition b64url_spec :: "b64_engine \<Rightarrow> bool" where
  "b64url_spec E \<longleftrightarrow>
     (\<forall>x. fst (snd E) (fst E x) = Some x \<and> (x \<noteq> [] \<longrightarrow> fst E x \<noteq> [])
        \<and> list_all b64url_char (fst E x) \<and> length (fst E x) mod 4 \<noteq> 1)"

lemma b64url_strict_encode:
  "b64url_spec E \<Longrightarrow> x \<noteq> [] \<Longrightarrow> b64url_strict E (b64url E x) = Inr x"
  by (simp add: b64url_strict_def b64url_def b64url_spec_def b64url_char_def list_all_iff)

lemma b64url_strict_canonical: "b64url_strict E txt = Inr raw \<Longrightarrow> txt = b64url E raw"
  by (auto simp: b64url_strict_def split: if_splits option.splits)

text \<open>
  A concrete engine: the standard encoder without padding, over the URL alphabet.
\<close>

definition url_char :: "char \<Rightarrow> char" where
  "url_char c = (if c = CHR ''+'' then CHR ''-'' else if c = CHR ''/'' then CHR ''_'' else c)"

definition std_char :: "char \<Rightarrow> char" where
  "std_char c = (if c = CHR ''-'' then CHR ''+'' else if c = CHR ''_'' then CHR ''/'' else c)"

definition url_engine :: b64_engine where
  "url_engine =
     ((\<lambda>x. map url_char (b64_clean (base64_encode x))),
      (\<lambda>t. b64_decode (map std_char t)), (\<lambda>t. b64_decode (map std_char t)))"

lemma b64_table_url:
  "i < 64 \<Longrightarrow> b64url_char (url_char (b64_table ! i)) \<and> std_char (url_char (b64_table ! i)) = b64_table ! i"
proof -
  have "list_all (\<lambda>c. b64url_char (url_char c) \<and> std_char (url_char c) = c) b64_table"
    by (simp add: b64_table_def b64url_char_def url_char_def std_char_def is_ascii_alphanumeric_def
        is_ascii_digit_def is_ascii_lowercase_def is_ascii_uppercase_def)
  then show "i < 64 \<Longrightarrow> ?thesis" by (simp add: list_all_length length_b64_table)
qed

lemma b64_digit_url: "b64url_char (url_char (b64_digit v)) \<and> std_char (url_char (b64_digit v)) = b64_digit v"
  unfolding b64_digit_def by (rule b64_table_url) (rule unat_and_63)

lemma encode_chunk_chars: "set (encode_chunk bs) \<subseteq> insert CHR ''='' (range b64_digit)"
  by (simp add: encode_chunk_def Let_def)

lemma clean_encode_chars:
  assumes "c \<in> set (b64_clean (base64_encode x))"
  shows "b64url_char (url_char c) \<and> std_char (url_char c) = c"
proof -
  have "c \<in> insert CHR ''='' (range b64_digit)" "c \<noteq> CHR ''=''"
    using assms encode_chunk_chars unfolding base64_encode_def b64_clean_def by auto
  then show ?thesis using b64_digit_url by blast
qed

lemma b64_clean_idem [simp]: "b64_clean (b64_clean x) = b64_clean x"
  by (simp add: b64_clean_def)

lemma url_engine_spec: "b64url_spec url_engine"
proof -
  have "map std_char (map url_char (b64_clean (base64_encode x))) = b64_clean (base64_encode x)" for x
    by (simp add: map_idI clean_encode_chars)
  moreover have "b64_decode (b64_clean (base64_encode x)) = Some x" for x
    using b64_encode_clean [of x] by (simp add: b64_decode_def Let_def)
  moreover have "b64_clean (base64_encode x) \<noteq> []" if "x \<noteq> []" for x
    using b64_encode_clean [of x] that by (intro notI) simp
  ultimately show ?thesis
    using b64_encode_clean
    by (simp add: b64url_spec_def url_engine_def list_all_iff clean_encode_chars)
qed

lemma b64url_strict_invalid: "b64url_strict E txt = Inl e \<Longrightarrow> \<exists>m. e = attach_ticket_invalid m"
  by (auto simp: b64url_strict_def split: if_splits option.splits)

definition is_invalid :: "rpc_error \<Rightarrow> bool" where
  "is_invalid e \<longleftrightarrow> (\<exists>m. e = attach_ticket_invalid m)"

lemma is_invalid [errs_intros]: "is_invalid (attach_ticket_invalid m)"
  by (auto simp: is_invalid_def)

lemma errs_rd_take [errs_intros]: "errs_in is_invalid (rd_take n r)"
  unfolding rd_take_def by (intro errs_intros)

lemma errs_rd_i64 [errs_intros]: "errs_in is_invalid (rd_i64 r)"
  unfolding rd_i64_def by (intro errs_intros)

lemma errs_rd_text [errs_intros]: "errs_in is_invalid (rd_text r)"
  unfolding rd_text_def by (intro errs_intros)

lemma errs_check_claims [errs_intros]: "errs_in is_invalid (check_claims c)"
  unfolding check_claims_def by (intro errs_intros)

lemma errs_decode_payload: "errs_in is_invalid (decode_payload p)"
  unfolding decode_payload_def by (intro errs_intros)

lemma decode_payload_invalid: "decode_payload p = Inl e \<Longrightarrow> \<exists>m. e = attach_ticket_invalid m"
  using errs_inD [OF errs_decode_payload] by (simp add: is_invalid_def)

section \<open>Opening minted tickets\<close>

lemma mint_iff:
  "mint_with_nonce seal E key who c n = Inr tok \<longleftrightarrow>
     who \<noteq> [] \<and> claims_valid c \<and>
     (\<exists>payload. encode_payload c = Inr payload \<and>
        tok = ATTACH_TICKET_PREFIX
                @ b64url E (seal n payload key (attach_ticket_aad who) TICKET_ENVELOPE_VERSION)
        \<and> length tok \<le> MAX_TICKET_CHARS)"
  by (cases "encode_payload c") (auto simp: mint_with_nonce_def claims_valid_def Let_def)

lemma check_lifetime_cases:
  "check_lifetime now c = Inr c \<or> (\<exists>m. check_lifetime now c = Inl (attach_ticket_expired m))"
  by (auto simp: check_lifetime_def)

lemma check_lifetime_Inr: "check_lifetime now c = Inr d \<Longrightarrow> d = c"
  by (auto simp: check_lifetime_def split: if_splits)

lemma open_attach_ticket_iff:
  "open_attach_ticket opn E key tok caller now = Inr c \<longleftrightarrow>
     (\<exists>envelope who payload.
        strip_prefix ATTACH_TICKET_PREFIX tok = Some (b64url E envelope)
        \<and> b64url_strict E (b64url E envelope) = Inr envelope
        \<and> length tok \<le> MAX_TICKET_CHARS \<and> caller = Some who \<and> who \<noteq> []
        \<and> opn envelope key (attach_ticket_aad who) TICKET_ENVELOPE_VERSION = Inr payload
        \<and> decode_payload payload = Inr c \<and> check_lifetime now c = Inr c)"
  (is "?l \<longleftrightarrow> ?r")
proof
  assume ?l
  then obtain body envelope payload c' where *:
    "strip_prefix ATTACH_TICKET_PREFIX tok = Some body" "length tok \<le> MAX_TICKET_CHARS"
    "b64url_strict E body = Inr envelope" "caller \<noteq> None" "caller \<noteq> Some []"
    "opn envelope key (attach_ticket_aad (the caller)) TICKET_ENVELOPE_VERSION = Inr payload"
    "decode_payload payload = Inr c'" "check_lifetime now c' = Inr c"
    by (auto simp: open_attach_ticket_def rbind_eq_Inr_iff map_err_eq_Inr_iff
        split: option.splits if_splits)
  then show ?r
    using b64url_strict_canonical [OF *(3)] check_lifetime_Inr [OF *(8)] by auto
next
  assume ?r
  then show ?l
    by (auto simp: open_attach_ticket_def split: option.splits)
qed

lemma open_attach_ticket_cases:
  obtains
    (invalid) m where "open_attach_ticket opn E key tok caller now = Inl (attach_ticket_invalid m)"
  | (opened) envelope who payload c where
      "strip_prefix ATTACH_TICKET_PREFIX tok = Some (b64url E envelope)" "length tok \<le> MAX_TICKET_CHARS"
      "caller = Some who" "who \<noteq> []"
      "opn envelope key (attach_ticket_aad who) TICKET_ENVELOPE_VERSION = Inr payload"
      "decode_payload payload = Inr c"
      "open_attach_ticket opn E key tok caller now = check_lifetime now c"
proof (cases "strip_prefix ATTACH_TICKET_PREFIX tok = None \<or> length tok > MAX_TICKET_CHARS")
  case True
  then have "\<exists>m. open_attach_ticket opn E key tok caller now = Inl (attach_ticket_invalid m)"
    by (auto simp: open_attach_ticket_def split: option.split)
  then show thesis using invalid by blast
next
  case False
  then obtain body where body: "strip_prefix ATTACH_TICKET_PREFIX tok = Some body"
    and len: "length tok \<le> MAX_TICKET_CHARS" by auto
  show thesis
  proof (cases "b64url_strict E body")
    case (Inl e)
    then obtain m where "e = attach_ticket_invalid m" using b64url_strict_invalid by blast
    with Inl body len show thesis by (intro invalid [of m]) (simp add: open_attach_ticket_def)
  next
    case (Inr envelope)
    note env = Inr
    have env': "body = b64url E envelope" using b64url_strict_canonical [OF env] .
    show thesis
    proof (cases "caller = None \<or> caller = Some []")
      case True
      with env body len show thesis
        by (intro invalid [of "''an anonymous caller cannot redeem an attach ticket''"]) (simp add: open_attach_ticket_def)
    next
      case False
      then obtain who where who: "caller = Some who" "who \<noteq> []" by auto
      show thesis
      proof (cases "opn envelope key (attach_ticket_aad who) TICKET_ENVELOPE_VERSION")
        case (Inl e)
        with env body len who show thesis
          by (intro invalid [of "''attach ticket failed verification''"]) (simp add: open_attach_ticket_def)
      next
        case (Inr payload)
        note op = Inr
        show thesis
        proof (cases "decode_payload payload")
          case (Inl e)
          then obtain m where "e = attach_ticket_invalid m" using decode_payload_invalid by blast
          with Inl op env body len who show thesis by (intro invalid [of m]) (simp add: open_attach_ticket_def)
        next
          case (Inr c)
          with op env body len who env' show thesis
            by (intro opened [of envelope who payload c]) (simp_all add: open_attach_ticket_def)
        qed
      qed
    qed
  qed
qed

lemma mint_opens:
  assumes "aead_correct seal opn" "b64url_spec E" "claims_ok c"
    and "mint_with_nonce seal E key who c n = Inr tok"
  shows "open_attach_ticket opn E key tok (Some who) now = check_lifetime now c"
proof -
  from assms(4) obtain payload where p: "encode_payload c = Inr payload" "who \<noteq> []" "claims_valid c"
    and tok: "tok = ATTACH_TICKET_PREFIX
        @ b64url E (seal n payload key (attach_ticket_aad who) TICKET_ENVELOPE_VERSION)"
    and len: "length tok \<le> MAX_TICKET_CHARS"
    unfolding mint_iff by blast
  have "decode_payload payload = Inr c"
    using assms(3) p by (simp add: decode_payload_inverse)
  then show ?thesis
    using assms(1,2) p(2) len tok
    by (simp add: open_attach_ticket_def b64url_strict_encode aead_nonempty aead_correctD)
qed

text \<open>Concrete claims, for evaluation.\<close>

definition sample_claims :: attach_ticket_claims where
  "sample_claims =
     \<lparr>issued_at = 1000, expires_at = 2000, ticket_id = replicate 32 CHR ''a'', catalog_name = ''sales'',
      data_version_spec = ''v1'', implementation_version = [], options_ipc = [1, 2, 3]\<rparr>"

lemma length_base64_encode: "length (base64_encode x) \<le> 4 * length x"
proof (induction "length x" arbitrary: x rule: less_induct)
  case less
  show ?case
  proof (cases x rule: bytes_three_cases)
    case (4 a b c r)
    with less [of r] show ?thesis
      by (simp add: base64_encode_step encode_chunk_def Let_def)
  qed (simp_all add: base64_encode_short encode_chunk_def Let_def, simp add: base64_encode_def)
qed

lemma length_url_engine: "length (b64url url_engine x) \<le> 4 * length x"
  unfolding b64url_def url_engine_def b64_clean_def
  by (simp add: le_trans [OF length_filter_le length_base64_encode])

lemma sample_claims_ok: "claims_ok sample_claims" "claims_valid sample_claims"
  by (simp_all add: sample_claims_def claims_ok_def claims_valid_def i64_range_def rust_str_ascii
      is_ticket_id_def list_all_iff)

lemma small_mint:
  assumes "claims_valid c" "length (options_ipc c) \<le> 50" "length (ticket_id c) \<le> 50"
    "length (catalog_name c) \<le> 50" "length (data_version_spec c) \<le> 50"
    "length (implementation_version c) \<le> 50"
  shows "\<exists>tok. mint_with_nonce clear_seal url_engine [9] ''alice'' c [] = Inr tok"
proof -
  obtain payload where p: "encode_payload c = Inr payload"
    using assms by (simp add: encode_payload_iff MAX_OPTIONS_BYTES_def MAX_TEXT_def)
  then have "length payload \<le> 500"
    using assms by (auto simp: encode_payload_iff text_bytes_def)
  then have "length (clear_seal [] payload [9] (attach_ticket_aad ''alice'') TICKET_ENVELOPE_VERSION) \<le> 1000"
    by (simp add: clear_seal_def frame_def attach_ticket_aad_def TICKET_AAD_DOMAIN_def)
  with length_url_engine [of "clear_seal [] payload [9] (attach_ticket_aad ''alice'') TICKET_ENVELOPE_VERSION"]
  show ?thesis
    using p assms(1) by (simp add: mint_iff ATTACH_TICKET_PREFIX_def MAX_TICKET_CHARS_def)
qed

lemma sample_mint:
  "\<exists>tok. mint_with_nonce clear_seal url_engine [9] ''alice'' sample_claims [] = Inr tok"
  using sample_claims_ok(2) by (rule small_mint) (simp_all add: sample_claims_def)

lemma mint_opens_live:
  assumes "aead_correct seal opn" "b64url_spec E" "claims_ok c"
    and "mint_with_nonce seal E key who c n = Inr tok"
    and "of_int (issued_at c) \<le> now + 60"
    and "expires_at c = 0 \<or> expires_at c + 60 < 2 ^ 63 \<and> now < of_int (expires_at c + 60)"
  shows "open_attach_ticket opn E key tok (Some who) now = Inr c"
proof -
  have "i64_wrap (expires_at c + 60) = expires_at c + 60" if "expires_at c + 60 < 2 ^ 63"
    using that assms(3) by (intro i64_wrap_id) (auto simp: i64_range_def claims_ok_def)
  then show ?thesis
    using assms(5,6) unfolding mint_opens [OF assms(1-4)]
    by (auto simp: check_lifetime_def CLOCK_SKEW_SECONDS_def)
qed

text \<open>C18: A minted ticket, presented by the principal it was minted for while its lifetime (widened by the
  clock skew on both sides) lasts, opens to exactly the claims it was minted with.\<close>

theorem attach_ticket_roundtrip:
  assumes "aead_correct seal opn" "b64url_spec E" "claims_ok c"
    and "mint_with_nonce seal E key who c n = Inr tok"
    and "of_int (issued_at c) \<le> now + 60"
    and "expires_at c = 0 \<or> expires_at c + 60 < 2 ^ 63 \<and> now < of_int (expires_at c + 60)"
  shows "open_attach_ticket opn E key tok (Some who) now = Inr c"
  using assms by (rule mint_opens_live)

theorem attach_ticket_roundtrip_witness:
  "open_attach_ticket clear_open url_engine [9]
     (projr (mint_with_nonce clear_seal url_engine [9] ''alice'' sample_claims [])) (Some ''alice'') 2050
   = Inr sample_claims"
proof -
  obtain tok where "mint_with_nonce clear_seal url_engine [9] ''alice'' sample_claims [] = Inr tok"
    using sample_mint by blast
  with attach_ticket_roundtrip [OF clear_aead_correct url_engine_spec sample_claims_ok(1) this, of 2050]
  show ?thesis by (simp add: sample_claims_def)
qed

lemma attach_ticket_opened:
  assumes "aead_authentic seal opn"
    and "strip_prefix ATTACH_TICKET_PREFIX tok = Some (b64url E envelope)"
    and "length tok \<le> MAX_TICKET_CHARS" "who \<noteq> []"
    and "opn envelope key (attach_ticket_aad who) TICKET_ENVELOPE_VERSION = Inr payload"
    and "decode_payload payload = Inr c"
  shows "\<exists>n. mint_with_nonce seal E key who c n = Inr tok"
proof -
  obtain n where "envelope = seal n payload key (attach_ticket_aad who) TICKET_ENVELOPE_VERSION"
    using aead_authenticD [OF assms(1,5)] by blast
  moreover from assms(6) have "claims_valid c" "encode_payload c = Inr payload"
    by (simp_all add: decode_payload_inverse)
  ultimately show ?thesis
    unfolding mint_iff using assms(2-4) unfolding strip_prefix_Some_iff by blast
qed

text \<open>C20: A ticket opens only if it was minted under the worker's key for the very principal presenting
  it, with the very claims it opens to, and only inside the lifetime those claims state.\<close>

theorem attach_ticket_unforgeable:
  assumes "aead_authentic seal opn"
    and "open_attach_ticket opn E key tok caller now = Inr c"
  shows "\<exists>who n. caller = Some who \<and> mint_with_nonce seal E key who c n = Inr tok
           \<and> of_int (issued_at c) \<le> now + 60
           \<and> (expires_at c = 0 \<or> now < of_int (expires_at c) + 60)"
proof -
  from assms(2) obtain envelope who payload where *:
    "strip_prefix ATTACH_TICKET_PREFIX tok = Some (b64url E envelope)" "length tok \<le> MAX_TICKET_CHARS"
    "who \<noteq> []" "opn envelope key (attach_ticket_aad who) TICKET_ENVELOPE_VERSION = Inr payload"
    "decode_payload payload = Inr c"
    and who: "caller = Some who" and life: "check_lifetime now c = Inr c"
    unfolding open_attach_ticket_iff by blast
  have "claims_ok c" using *(5) by (simp add: decode_payload_inverse)
  then have "i64_wrap (expires_at c + 60) \<le> expires_at c + 60"
    by (simp add: i64_wrap_le claims_ok_def i64_range_def)
  then have "of_int (i64_wrap (expires_at c + 60)) \<le> (of_int (expires_at c) + 60 :: rat)"
    using of_int_le_iff [of "i64_wrap (expires_at c + 60)" "expires_at c + 60", where ?'a = rat] by simp
  with life have "of_int (issued_at c) \<le> now + 60" "expires_at c = 0 \<or> now < of_int (expires_at c) + 60"
    by (auto simp: check_lifetime_def CLOCK_SKEW_SECONDS_def split: if_splits)
  with attach_ticket_opened [OF assms(1) *] who show ?thesis by blast
qed

theorem attach_ticket_unforgeable_witness:
  "\<exists>who n. Some ''alice'' = Some who
     \<and> mint_with_nonce clear_seal url_engine [9] who sample_claims n
         = Inr (projr (mint_with_nonce clear_seal url_engine [9] ''alice'' sample_claims []))
     \<and> of_int (issued_at sample_claims) \<le> (1500 + 60 :: rat)
     \<and> (expires_at sample_claims = 0 \<or> (1500 :: rat) < of_int (expires_at sample_claims) + 60)"
proof -
  obtain tok where tok: "mint_with_nonce clear_seal url_engine [9] ''alice'' sample_claims [] = Inr tok"
    using sample_mint by blast
  have "check_lifetime 1500 sample_claims = Inr sample_claims"
    by (simp add: check_lifetime_def sample_claims_def CLOCK_SKEW_SECONDS_def i64_range_def)
  then have "open_attach_ticket clear_open url_engine [9] tok (Some ''alice'') 1500 = Inr sample_claims"
    unfolding mint_opens [OF clear_aead_correct url_engine_spec sample_claims_ok(1) tok] .
  from attach_ticket_unforgeable [OF clear_aead_authentic this] show ?thesis
    unfolding tok by simp
qed

text \<open>
  A ticket that this worker's key sealed for the caller, with the claims it stands for; and the
  lifetime of claims, widened by the clock skew on both sides. The end of the lifetime is a 64-bit
  sum, which wraps in the last 60 seconds of its range.
\<close>

definition authentic_for ::
    "seal_fn \<Rightarrow> b64_engine \<Rightarrow> bytes \<Rightarrow> string option \<Rightarrow> string \<Rightarrow> attach_ticket_claims \<Rightarrow> bool" where
  "authentic_for seal E key caller tok c \<longleftrightarrow>
     claims_ok c \<and> (\<exists>who n. caller = Some who \<and> mint_with_nonce seal E key who c n = Inr tok)"

definition live_at :: "rat \<Rightarrow> attach_ticket_claims \<Rightarrow> bool" where
  "live_at now c \<longleftrightarrow>
     of_int (issued_at c) \<le> now + 60 \<and> (expires_at c = 0 \<or> now < of_int (i64_wrap (expires_at c + 60)))"

lemma check_lifetime_live: "check_lifetime now c = Inr c \<longleftrightarrow> live_at now c"
  by (auto simp: check_lifetime_def live_at_def CLOCK_SKEW_SECONDS_def)

lemma open_authentic:
  assumes "aead_correct seal opn" "b64url_spec E" "authentic_for seal E key caller tok c"
  shows "open_attach_ticket opn E key tok caller now = check_lifetime now c"
  using assms(3) mint_opens [OF assms(1,2)] unfolding authentic_for_def by blast

lemma open_not_authentic:
  assumes "aead_authentic seal opn" "\<And>c. \<not> authentic_for seal E key caller tok c"
  shows "\<exists>m. open_attach_ticket opn E key tok caller now = Inl (attach_ticket_invalid m)"
proof (cases rule: open_attach_ticket_cases [of opn E key tok caller now])
  case (opened envelope who payload c)
  then have "\<exists>n. mint_with_nonce seal E key who c n = Inr tok"
    using attach_ticket_opened [OF assms(1)] by blast
  moreover have "claims_ok c" using opened(6) by (simp add: decode_payload_inverse)
  ultimately have "authentic_for seal E key caller tok c" using opened(3) by (auto simp: authentic_for_def)
  then show ?thesis using assms(2) by blast
qed blast

lemma kinds_differ [simp]: "attach_ticket_expired m \<noteq> attach_ticket_invalid m'" "attach_ticket_invalid m' \<noteq> attach_ticket_expired m"
  by (simp_all add: attach_ticket_expired_def attach_ticket_invalid_def)

lemma open_outcomes:
  assumes "aead_correct seal opn" "aead_authentic seal opn" "b64url_spec E"
  shows "open_attach_ticket opn E key tok caller now = Inr c \<longleftrightarrow> authentic_for seal E key caller tok c \<and> live_at now c"
    and "(\<exists>m. open_attach_ticket opn E key tok caller now = Inl (attach_ticket_expired m))
      \<longleftrightarrow> (\<exists>c. authentic_for seal E key caller tok c \<and> \<not> live_at now c)"
    and "(\<exists>m. open_attach_ticket opn E key tok caller now = Inl (attach_ticket_invalid m))
      \<longleftrightarrow> (\<nexists>c. authentic_for seal E key caller tok c)"
proof -
  let ?open = "open_attach_ticket opn E key tok caller now"
  let ?auth = "authentic_for seal E key caller tok"
  note auth = open_authentic [OF assms(1,3), of key caller tok]
  note not_auth = open_not_authentic [OF assms(2), of E key caller tok now]
  have life: "check_lifetime now d = Inr d \<and> live_at now d
      \<or> (\<exists>m. check_lifetime now d = Inl (attach_ticket_expired m)) \<and> \<not> live_at now d" for d
    using check_lifetime_cases [of now d] check_lifetime_live [of now d] by auto
  show "?open = Inr c \<longleftrightarrow> ?auth c \<and> live_at now c"
  proof
    assume opened: "?open = Inr c"
    then obtain d where d: "?auth d" using not_auth by fastforce
    then have "d = c" using opened auth check_lifetime_Inr by metis
    then show "?auth c \<and> live_at now c" using d opened auth [OF d] life [of c] by auto
  qed (use auth [of c now] life [of c] in auto)
  show "(\<exists>m. ?open = Inl (attach_ticket_expired m)) \<longleftrightarrow> (\<exists>d. ?auth d \<and> \<not> live_at now d)"
  proof
    assume "\<exists>m. ?open = Inl (attach_ticket_expired m)"
    then obtain m d where "?open = Inl (attach_ticket_expired m)" "?auth d" using not_auth by fastforce
    then show "\<exists>d. ?auth d \<and> \<not> live_at now d" using auth [of d now] life [of d] by auto
  next
    assume "\<exists>d. ?auth d \<and> \<not> live_at now d"
    then obtain d where "?auth d" "\<not> live_at now d" by blast
    then show "\<exists>m. ?open = Inl (attach_ticket_expired m)" using auth [of d now] life [of d] by auto
  qed
  show "(\<exists>m. ?open = Inl (attach_ticket_invalid m)) \<longleftrightarrow> (\<nexists>d. ?auth d)"
  proof
    assume "\<exists>m. ?open = Inl (attach_ticket_invalid m)"
    then obtain m where m: "?open = Inl (attach_ticket_invalid m)" by blast
    show "\<nexists>d. ?auth d"
    proof
      assume "\<exists>d. ?auth d"
      then obtain d where "?auth d" by blast
      then show False using m auth [of d now] life [of d] by auto
    qed
  qed (use not_auth in blast)
qed

text \<open>C31: What a caller learns from a refusal: the expired kind is given exactly for a ticket that this
  worker sealed for that very caller and whose lifetime is not running, and the invalid kind exactly
  for every ticket that it did not seal for that caller, a forged one and another user's alike. All
  other tickets open, to the claims they were sealed with; there is no fourth outcome.\<close>

theorem attach_ticket_error_kinds:
  assumes "aead_correct seal opn" "aead_authentic seal opn" "b64url_spec E"
  shows "((\<exists>m. open_attach_ticket opn E key tok caller now = Inl (attach_ticket_expired m))
        \<longleftrightarrow> (\<exists>c. authentic_for seal E key caller tok c \<and> \<not> live_at now c))
    \<and> ((\<exists>m. open_attach_ticket opn E key tok caller now = Inl (attach_ticket_invalid m))
        \<longleftrightarrow> (\<nexists>c. authentic_for seal E key caller tok c))
    \<and> (\<forall>c. open_attach_ticket opn E key tok caller now = Inr c
        \<longleftrightarrow> authentic_for seal E key caller tok c \<and> live_at now c)"
  using open_outcomes [OF assms] by blast

text \<open>C39: The expiry check adds the clock skew in 64-bit arithmetic: a ticket whose expiry lies within
  the last 60 seconds of the range is minted, and then refused as expired at every later moment,
  although its lifetime has hardly begun.\<close>

theorem attach_ticket_far_expiry_refused:
  assumes "aead_correct seal opn" "b64url_spec E" "claims_ok c"
    and "mint_with_nonce seal E key who c n = Inr tok"
    and "2 ^ 63 \<le> expires_at c + 60" "0 \<le> now"
  shows "\<exists>m. open_attach_ticket opn E key tok (Some who) now = Inl (attach_ticket_expired m)"
proof -
  have "i64_wrap (expires_at c + 60) < 0"
    using assms(3,5) by (subst i64_wrap_over) (auto simp: claims_ok_def i64_range_def)
  then have "of_int (i64_wrap (expires_at c + 60)) \<le> (0 :: rat)" by simp
  then have "of_int (i64_wrap (expires_at c + 60)) \<le> now"
    using assms(6) by (rule order_trans)
  moreover have "expires_at c \<noteq> 0" using assms(5) by auto
  ultimately have "check_lifetime now c \<noteq> Inr c"
    by (simp add: check_lifetime_def CLOCK_SKEW_SECONDS_def)
  then show ?thesis
    unfolding mint_opens [OF assms(1-4)] using check_lifetime_cases [of now c] by blast
qed

definition far_claims :: attach_ticket_claims where
  "far_claims = sample_claims\<lparr>expires_at := 9223372036854775800\<rparr>"

lemma far_claims_ok: "claims_ok far_claims"
  using sample_claims_ok(1) by (simp add: far_claims_def claims_ok_def i64_range_def)

lemma far_mint:
  "\<exists>tok. mint_with_nonce clear_seal url_engine [9] ''alice'' far_claims [] = Inr tok"
proof (rule small_mint)
  show "claims_valid far_claims"
    using sample_claims_ok(2) by (simp add: far_claims_def claims_valid_def sample_claims_def)
qed (simp_all add: far_claims_def sample_claims_def)

theorem attach_ticket_far_expiry_refused_witness:
  "\<exists>m. open_attach_ticket clear_open url_engine [9]
     (projr (mint_with_nonce clear_seal url_engine [9] ''alice'' far_claims [])) (Some ''alice'') 2000
     = Inl (attach_ticket_expired m)"
proof -
  obtain tok where "mint_with_nonce clear_seal url_engine [9] ''alice'' far_claims [] = Inr tok"
    using far_mint by blast
  with attach_ticket_far_expiry_refused [OF clear_aead_correct url_engine_spec far_claims_ok this, of 2000]
  show ?thesis by (simp add: far_claims_def)
qed

lemma b64url_inject: "b64url_spec E \<Longrightarrow> b64url E x = b64url E y \<Longrightarrow> x = y"
  unfolding b64url_spec_def b64url_def by (metis option.inject)

lemma sample_not_bob:
  assumes "mint_with_nonce clear_seal url_engine [9] ''alice'' sample_claims [] = Inr tok"
  shows "\<not> authentic_for clear_seal url_engine [9] (Some ''bob'') tok c"
proof
  assume "authentic_for clear_seal url_engine [9] (Some ''bob'') tok c"
  then obtain n where "mint_with_nonce clear_seal url_engine [9] ''bob'' c n = Inr tok"
    by (auto simp: authentic_for_def)
  then obtain p q where "clear_seal n p [9] (attach_ticket_aad ''bob'') TICKET_ENVELOPE_VERSION
      = clear_seal [] q [9] (attach_ticket_aad ''alice'') TICKET_ENVELOPE_VERSION"
    using assms b64url_inject [OF url_engine_spec] unfolding mint_iff by fastforce
  then have "attach_ticket_aad ''bob'' = attach_ticket_aad ''alice''" using clear_seal_inject by blast
  then show False by (simp add: attach_ticket_aad_def)
qed

text \<open>Alice's own ticket after its lifetime, the same ticket in Bob's hands, and Alice's ticket in time.\<close>

theorem attach_ticket_error_kinds_witness:
  "let tok = projr (mint_with_nonce clear_seal url_engine [9] ''alice'' sample_claims [])
   in (\<exists>m. open_attach_ticket clear_open url_engine [9] tok (Some ''alice'') 3000 = Inl (attach_ticket_expired m))
      \<and> (\<exists>m. open_attach_ticket clear_open url_engine [9] tok (Some ''bob'') 1500 = Inl (attach_ticket_invalid m))
      \<and> open_attach_ticket clear_open url_engine [9] tok (Some ''alice'') 1500 = Inr sample_claims"
proof -
  obtain tok where tok: "mint_with_nonce clear_seal url_engine [9] ''alice'' sample_claims [] = Inr tok"
    using sample_mint by blast
  then have alice: "authentic_for clear_seal url_engine [9] (Some ''alice'') tok sample_claims"
    using sample_claims_ok(1) by (auto simp: authentic_for_def)
  have "\<not> live_at 3000 sample_claims" "live_at 1500 sample_claims"
    by (simp_all add: live_at_def sample_claims_def i64_range_def)
  note kinds = attach_ticket_error_kinds [OF clear_aead_correct clear_aead_authentic url_engine_spec, of "[9]" tok]
  have "\<exists>m. open_attach_ticket clear_open url_engine [9] tok (Some ''alice'') 3000 = Inl (attach_ticket_expired m)"
    using kinds [of "Some ''alice''" 3000] alice \<open>\<not> live_at 3000 sample_claims\<close> by blast
  moreover have "\<exists>m. open_attach_ticket clear_open url_engine [9] tok (Some ''bob'') 1500 = Inl (attach_ticket_invalid m)"
    using kinds [of "Some ''bob''" 1500] sample_not_bob [OF tok] by blast
  moreover have "open_attach_ticket clear_open url_engine [9] tok (Some ''alice'') 1500 = Inr sample_claims"
    using kinds [of "Some ''alice''" 1500] alice \<open>live_at 1500 sample_claims\<close> by blast
  ultimately show ?thesis by (simp add: tok)
qed

end
