(* ===== verification/Attach_Redeem.thy ===== *)
theory Attach_Redeem
  imports Attach_Ticket
begin

text \<open>
  What the worker does with attach tickets: \<open>redeem_attach_ticket\<close> replaces a ticket-carrying
  attach request by the attach it seals, and \<open>seal_attach\<close> validates and seals one
  (\<open>src/vgi/src/attach_ticket.rs\<close>), over the option registry of \<open>src/vgi/src/dispatch.rs\<close> and the
  option-spec readers of \<open>src/vgi/src/catalog.rs\<close>. The IPC reader, the cast kernel, the clock and
  the random bytes are parameters.
\<close>

section \<open>Callers and requests\<close>

definition caller_principal :: "auth_context \<Rightarrow> string option" where
  "caller_principal auth =
     (if authenticated auth \<and> auth_principal auth \<noteq> [] then Some (auth_principal auth) else None)"

definition string_value :: "cast_fn \<Rightarrow> array \<Rightarrow> string option" where
  "string_value cast col =
     (case (case data_type_of col of
              Utf8 \<Rightarrow> Some col
            | LargeUtf8 \<Rightarrow> (case cast col Utf8 of Inl _ \<Rightarrow> None | Inr a \<Rightarrow> Some a)
            | Utf8View \<Rightarrow> (case cast col Utf8 of Inl _ \<Rightarrow> None | Inr a \<Rightarrow> Some a)
            | Dictionary _ _ \<Rightarrow> (case cast col Utf8 of Inl _ \<Rightarrow> None | Inr a \<Rightarrow> Some a)
            | _ \<Rightarrow> None) of
        None \<Rightarrow> None
      | Some as_utf8 \<Rightarrow>
          (case downcast Utf8 as_utf8 of
             None \<Rightarrow> None
           | Some s \<Rightarrow> if array_len s \<noteq> 0 \<and> \<not> is_null s 0 then Some (str_value s 0) else None))"

record catalog_attach_request =
  req_name :: string
  req_options :: "bytes option"
  req_data_version_spec :: "string option"
  req_implementation_version :: "string option"
  req_client_capabilities :: "bytes option"

section \<open>Redemption\<close>

definition opt_nonempty :: "'a list \<Rightarrow> 'a list option" where
  "opt_nonempty xs = (if xs = [] then None else Some xs)"

fun position :: "('a \<Rightarrow> bool) \<Rightarrow> 'a list \<Rightarrow> nat option" where
  "position P [] = None"
| "position P (x # xs) = (if P x then Some 0 else map_option Suc (position P xs))"

definition other_options :: "string list \<Rightarrow> nat \<Rightarrow> (string \<times> string) list" where
  "other_options names ticket_index =
     map (\<lambda>(i, n). (''options.'' @ n, ''not allowed alongside '' @ ATTACH_TICKET_OPTION))
       (filter (\<lambda>(i, n). i \<noteq> ticket_index) (List.enumerate 0 names))"

definition redeemed_request ::
    "read_batch_fn \<Rightarrow> catalog_attach_request \<Rightarrow> attach_ticket_claims \<Rightarrow> catalog_attach_request option result" where
  "redeemed_request read_batch request claims =
     (if options_ipc claims \<noteq> [] \<and> \<not> is_ok (read_batch (options_ipc claims)) then
        Inl (attach_ticket_invalid ''attach ticket options are not an Arrow IPC record'')
      else Inr (Some
        \<lparr>req_name = catalog_name claims,
         req_options = opt_nonempty (options_ipc claims),
         req_data_version_spec = opt_nonempty (data_version_spec claims),
         req_implementation_version = opt_nonempty (implementation_version claims),
         req_client_capabilities = req_client_capabilities request\<rparr>))"

definition redeem_attach_ticket ::
    "open_fn \<Rightarrow> b64_engine \<Rightarrow> read_batch_fn \<Rightarrow> cast_fn \<Rightarrow> catalog_attach_request \<Rightarrow> bytes option
       \<Rightarrow> auth_context \<Rightarrow> rat \<Rightarrow> catalog_attach_request option result" where
  "redeem_attach_ticket opn E read_batch cast request signing_key auth now =
     (case Option.bind (req_options request) opt_nonempty of
        None \<Rightarrow> Inr None
      | Some opts \<Rightarrow>
     (case read_batch opts of
        Inl _ \<Rightarrow> Inr None
      | Inr batch \<Rightarrow>
          (let names = map field_name (schema_fields batch) in
     (case position (\<lambda>n. eq_ignore_ascii_case n ATTACH_TICKET_OPTION) names of
        None \<Rightarrow> Inr None
      | Some ticket_index \<Rightarrow>
          if other_options names ticket_index \<noteq> [] then
            Inl (invalid_request (ATTACH_TICKET_OPTION @ '' must be the only attach option'')
                   (other_options names ticket_index))
          else
     (case (if num_rows batch = 1 then string_value cast (columns batch ! ticket_index) else None) of
        None \<Rightarrow> Inl (attach_ticket_invalid (ATTACH_TICKET_OPTION @ '' must be a string''))
      | Some token \<Rightarrow>
     (case signing_key of
        None \<Rightarrow> Inl (attach_ticket_invalid ''this worker does not redeem attach tickets'')
      | Some key \<Rightarrow>
          rbind (open_attach_ticket opn E key token (caller_principal auth) now)
            (redeemed_request read_batch request)))))))"

section \<open>The option registry\<close>

text \<open>A catalog as the registry sees it: its name and its serialized attach-option specs.\<close>

record cat_model =
  model_name :: string
  attach_option_specs :: "bytes list"

record dispatcher =
  disp_catalog_name :: string
  disp_catalog :: cat_model
  disp_secondary :: "cat_model list"
  disp_stored :: "cat_model list"

definition attach_option_specs_of :: "dispatcher \<Rightarrow> string \<Rightarrow> bytes list option" where
  "attach_option_specs_of d n =
     (let primary = (if model_name (disp_catalog d) = [] then disp_catalog_name d
                     else model_name (disp_catalog d))
      in if primary = n then Some (attach_option_specs (disp_catalog d))
         else (case find (\<lambda>c. model_name c = n) (disp_secondary d) of
                 Some sec \<Rightarrow> Some (attach_option_specs sec)
               | None \<Rightarrow> map_option attach_option_specs (find (\<lambda>c. model_name c = n) (disp_stored d))))"

definition spec_name :: "read_batch_fn \<Rightarrow> bytes \<Rightarrow> string option" where
  "spec_name read_batch raw =
     (case read_batch raw of
        Inl _ \<Rightarrow> None
      | Inr batch \<Rightarrow>
          (case Option.bind (column_by_name batch ''name'') (downcast Utf8) of
             None \<Rightarrow> None
           | Some col \<Rightarrow> if num_rows batch > 0 \<and> \<not> is_null col 0 then Some (str_value col 0) else None))"

definition attach_option_names :: "read_batch_fn \<Rightarrow> bytes list \<Rightarrow> string list" where
  "attach_option_names read_batch specs = List.map_filter (spec_name read_batch) specs"

definition flagged_name :: "read_batch_fn \<Rightarrow> string \<Rightarrow> bytes \<Rightarrow> string option" where
  "flagged_name read_batch flag raw =
     (case read_batch raw of
        Inl _ \<Rightarrow> None
      | Inr batch \<Rightarrow>
          if num_rows batch = 0 then None
          else
            (case Option.bind (column_by_name batch flag) (downcast Boolean) of
               None \<Rightarrow> None
             | Some col \<Rightarrow>
                 if is_null col 0 \<or> \<not> bool_value col 0 then None
                 else map_option (\<lambda>n. str_value n 0)
                        (Option.bind (column_by_name batch ''name'') (downcast Utf8))))"

definition flagged_attach_option_names :: "read_batch_fn \<Rightarrow> bytes list \<Rightarrow> string \<Rightarrow> string list" where
  "flagged_attach_option_names read_batch specs flag = List.map_filter (flagged_name read_batch flag) specs"

definition required_attach_option_names :: "read_batch_fn \<Rightarrow> bytes list \<Rightarrow> string list" where
  "required_attach_option_names read_batch specs = flagged_attach_option_names read_batch specs ''required''"

definition declared_options :: "read_batch_fn \<Rightarrow> bytes list \<Rightarrow> (string \<times> bool) list" where
  "declared_options read_batch specs =
     (let required = required_attach_option_names read_batch specs
      in map (\<lambda>n. (n, n \<in> set required)) (attach_option_names read_batch specs))"

section \<open>Sealing\<close>

record seal_attach_request =
  seal_catalog_name :: string
  seal_options :: "bytes option"
  seal_data_version_spec :: string
  seal_implementation_version :: string
  ttl_seconds :: int

record 'ts attach_ticket =
  ticket :: string
  ticket_expires_at :: "'ts option"

text \<open>\<open>chrono::DateTime::from_timestamp\<close> is the parameter: \<open>None\<close> outside chrono's range.\<close>

definition ticket_expiry :: "(int \<Rightarrow> 'ts option) \<Rightarrow> int \<Rightarrow> 'ts option" where
  "ticket_expiry from_timestamp expires_at_seconds =
     (if expires_at_seconds = 0 then None else from_timestamp expires_at_seconds)"

text \<open>The violations of one request against the options a catalog declares.\<close>

definition option_violations :: "(string \<times> bool) list \<Rightarrow> string list \<Rightarrow> (string \<times> string) list" where
  "option_violations declared names =
     List.map_filter (\<lambda>n.
         if eq_ignore_ascii_case n ATTACH_TICKET_OPTION then
           Some (''options.'' @ n, ''a ticket cannot seal another ticket'')
         else if \<not> list_ex (\<lambda>(d, _). eq_ignore_ascii_case d n) declared then
           Some (''options.'' @ n, ''not an attach option this catalog declares'')
         else None) names
     @ List.map_filter (\<lambda>(spec, required).
         if required \<and> \<not> list_ex (\<lambda>n. eq_ignore_ascii_case n spec) names
         then Some (''options.'' @ spec, ''required'') else None) declared"

definition option_names :: "record_batch option \<Rightarrow> string list" where
  "option_names batch =
     (case batch of
        Some b \<Rightarrow> if num_rows b = 1 then map field_name (schema_fields b) else []
      | None \<Rightarrow> [])"

definition sealed_options :: "seal_attach_request \<Rightarrow> string list \<Rightarrow> bytes" where
  "sealed_options request names =
     (case seal_options request of
        Some bs \<Rightarrow> if names \<noteq> [] then bs else []
      | None \<Rightarrow> [])"

definition seal_violations ::
    "read_batch_fn \<Rightarrow> dispatcher \<Rightarrow> seal_attach_request \<Rightarrow> record_batch option \<Rightarrow> (string \<times> string) list" where
  "seal_violations read_batch disp request batch =
     (let names = option_names batch;
          opts = sealed_options request names
      in
      (if ttl_seconds request < 0
       then [(''ttl_seconds'', ''must be 0 (as long as allowed) or positive'')] else [])
      @ (case batch of
           Some b \<Rightarrow> if num_rows b > 1 then [(''options'', ''must be a one-row record'')] else []
         | None \<Rightarrow> [])
      @ (case attach_option_specs_of disp (seal_catalog_name request) of
           None \<Rightarrow> [(''catalog_name'', ''no catalog named '' @ debug_str (seal_catalog_name request))]
         | Some specs \<Rightarrow> option_violations (declared_options read_batch specs) names)
      @ (if length opts > MAX_OPTIONS_BYTES
         then [(''options'', show_nat (length opts) @ '' bytes; a ticket carries at most 16384'')] else []))"

definition ticket_lifetime :: "int \<Rightarrow> int option \<Rightarrow> int option" where
  "ticket_lifetime ttl max_ttl =
     (if ttl = 0 then max_ttl
      else (case max_ttl of None \<Rightarrow> Some ttl | Some cap \<Rightarrow> Some (min ttl cap)))"

definition seal_claims ::
    "seal_attach_request \<Rightarrow> string list \<Rightarrow> int option \<Rightarrow> bytes \<Rightarrow> int \<Rightarrow> attach_ticket_claims" where
  "seal_claims request names max_ttl raw_id now =
     \<lparr>issued_at = now,
      expires_at = (case ticket_lifetime (ttl_seconds request) max_ttl of
                      None \<Rightarrow> 0 | Some l \<Rightarrow> i64_wrap (now + l)),
      ticket_id = new_ticket_id raw_id,
      catalog_name = seal_catalog_name request,
      data_version_spec = seal_data_version_spec request,
      implementation_version = seal_implementation_version request,
      options_ipc = sealed_options request names\<rparr>"

definition seal_attach ::
    "seal_fn \<Rightarrow> b64_engine \<Rightarrow> read_batch_fn \<Rightarrow> (int \<Rightarrow> 'ts option) \<Rightarrow> nonce \<Rightarrow> bytes \<Rightarrow> dispatcher \<Rightarrow> bytes
       \<Rightarrow> int option \<Rightarrow> seal_attach_request \<Rightarrow> auth_context \<Rightarrow> int \<Rightarrow> 'ts attach_ticket result" where
  "seal_attach seal E read_batch from_timestamp nonce raw_id disp signing_key max_ttl request auth now =
     (case caller_principal auth of
        None \<Rightarrow> Inl (action_denied ''an anonymous caller cannot seal an attach ticket'')
      | Some who \<Rightarrow>
          rbind (case Option.bind (seal_options request) opt_nonempty of
                   None \<Rightarrow> Inr None
                 | Some bs \<Rightarrow>
                     (case read_batch bs of
                        Inl _ \<Rightarrow> Inl (invalid_request ''seal_attach request is invalid''
                                       [(''options'', ''not an Arrow IPC record'')])
                      | Inr b \<Rightarrow> Inr (Some b)))
            (\<lambda>batch.
               let vs = seal_violations read_batch disp request batch;
                   claims = seal_claims request (option_names batch) max_ttl raw_id now
               in if vs \<noteq> [] then Inl (invalid_request ''seal_attach request is invalid'' vs)
                  else
                    rbind (map_err (\<lambda>e. invalid_request ''seal_attach request is invalid''
                                          [(''request'', message e)])
                             (mint_with_nonce seal E signing_key who claims nonce))
                      (\<lambda>t. Inr \<lparr>ticket = t, ticket_expires_at = ticket_expiry from_timestamp (expires_at claims)\<rparr>)))"

section \<open>Sealed attaches\<close>

lemma unat_of_char: "unat (of_char c :: byte) = code c"
proof -
  have "(of_char c :: byte) = word_of_nat (code c)" by (simp add: of_nat_of_char)
  then show ?thesis by (simp only: unat_byte_of_nat of_char_mod_256)
qed

lemma code_ascii: "code c < 128 \<Longrightarrow> (of_char c :: byte) \<le> 0x7F"
  by (simp add: word_le_nat_alt unat_of_char)

lemma ticket_id_ascii: "is_ticket_id s \<Longrightarrow> rust_str s"
  by (rule rust_str_ascii) (auto simp: is_ticket_id_def list_all_iff is_ascii_digit_def intro!: code_ascii)

lemma seal_claims_ok:
  assumes "i64_range now" "rust_str (seal_catalog_name request)" "rust_str (seal_data_version_spec request)"
    "rust_str (seal_implementation_version request)" "claims_valid (seal_claims request names max_ttl raw now)"
  shows "claims_ok (seal_claims request names max_ttl raw now)"
proof -
  have "rust_str (new_ticket_id raw)"
    using assms(5) by (intro ticket_id_ascii) (simp add: claims_valid_def seal_claims_def)
  moreover have "i64_range 0" by (simp add: i64_range_def)
  ultimately show ?thesis
    using assms by (simp add: claims_ok_def seal_claims_def split: option.split)
qed

definition request_batch :: "read_batch_fn \<Rightarrow> seal_attach_request \<Rightarrow> record_batch option" where
  "request_batch read_batch request =
     (case Option.bind (seal_options request) opt_nonempty of
        None \<Rightarrow> None
      | Some bs \<Rightarrow> (case read_batch bs of Inl _ \<Rightarrow> None | Inr b \<Rightarrow> Some b))"

lemma seal_attach_Inr:
  assumes "seal_attach seal E read_batch ts nonce raw disp key max_ttl request auth now = Inr t"
  obtains who where "caller_principal auth = Some who"
    and "mint_with_nonce seal E key who
           (seal_claims request (option_names (request_batch read_batch request)) max_ttl raw now) nonce
         = Inr (ticket t)"
    and "sealed_options request (option_names (request_batch read_batch request)) \<noteq> [] \<longrightarrow>
         is_ok (read_batch (sealed_options request (option_names (request_batch read_batch request))))"
    and "seal_violations read_batch disp request (request_batch read_batch request) = []"
    and "ticket_expires_at t = ticket_expiry ts (expires_at
           (seal_claims request (option_names (request_batch read_batch request)) max_ttl raw now))"
proof -
  from assms obtain who where who: "caller_principal auth = Some who"
    by (auto simp: seal_attach_def split: option.splits)
  let ?b = "request_batch read_batch request"
  have opts: "(case Option.bind (seal_options request) opt_nonempty of
                 None \<Rightarrow> Inr None
               | Some bs \<Rightarrow>
                   (case read_batch bs of
                      Inl _ \<Rightarrow> Inl (invalid_request ''seal_attach request is invalid''
                                     [(''options'', ''not an Arrow IPC record'')])
                    | Inr b \<Rightarrow> Inr (Some b))) = Inr ?b"
    (is "?o = _")
  proof (cases ?o)
    case (Inl e)
    with assms who show ?thesis by (simp add: seal_attach_def)
  next
    case (Inr b)
    then show ?thesis by (auto simp: request_batch_def split: option.splits sum.splits)
  qed
  have vs: "seal_violations read_batch disp request ?b = []"
    using assms who unfolding seal_attach_def opts by (auto simp: Let_def split: if_splits)
  have "mint_with_nonce seal E key who (seal_claims request (option_names ?b) max_ttl raw now) nonce
      = Inr (ticket t)"
    "ticket_expires_at t = ticket_expiry ts (expires_at
       (seal_claims request (option_names ?b) max_ttl raw now))"
    using assms who vs unfolding seal_attach_def opts
    by (auto simp: Let_def rbind_eq_Inr_iff map_err_eq_Inr_iff)
  moreover have "is_ok (read_batch (sealed_options request (option_names ?b)))"
    if "sealed_options request (option_names ?b) \<noteq> []"
    using that opts
    by (cases "seal_options request")
       (auto simp: sealed_options_def option_names_def opt_nonempty_def request_batch_def is_ok_def
        split: if_splits sum.splits)
  ultimately show thesis using that who vs by blast
qed

text \<open>The one attach option of a request that presents a ticket.\<close>

definition ticket_batch :: "string \<Rightarrow> string \<Rightarrow> record_batch" where
  "ticket_batch n tok =
     \<lparr>schema_fields = [Field n Utf8 True []],
      columns = [\<lparr>data_type_of = Utf8, slots = [Some (SStr tok)]\<rparr>], num_rows = 1\<rparr>"

lemma string_value_ticket: "string_value cast \<lparr>data_type_of = Utf8, slots = [Some (SStr tok)]\<rparr> = Some tok"
  by (simp add: string_value_def downcast_def array_len_def is_null_def str_value_def)

lemma redeem_ticket_batch:
  assumes "req_options request = Some opts" "opts \<noteq> []" "read_batch opts = Inr (ticket_batch n tok)"
    and "eq_ignore_ascii_case n ATTACH_TICKET_OPTION"
  shows "redeem_attach_ticket opn E read_batch cast request (Some key) auth now
           = rbind (open_attach_ticket opn E key tok (caller_principal auth) now)
               (redeemed_request read_batch request)"
  using assms
  by (simp add: redeem_attach_ticket_def opt_nonempty_def ticket_batch_def other_options_def
      string_value_ticket Let_def)

text \<open>C4: Sealing an attach and presenting the ticket is the original attach: when seal_attach issued a
  ticket, an attach request that presents it as its only option (in any letter case) is replaced by
  the catalog, options and version specs that were sealed, with the presenting request's own client
  capabilities, for the same principal while the lifetime lasts, whatever name the request carries.\<close>

theorem seal_then_redeem:
  assumes "aead_correct seal opn" "b64url_spec E"
    and sealed: "seal_attach seal E read_batch ts nonce raw disp key max_ttl sreq auth now = Inr t"
    and "i64_range now" "rust_str (seal_catalog_name sreq)" "rust_str (seal_data_version_spec sreq)"
      "rust_str (seal_implementation_version sreq)"
    and names: "names = option_names (request_batch read_batch sreq)"
    and exp: "e = expires_at (seal_claims sreq names max_ttl raw now)"
    and "of_int now \<le> clock + 60" "e = 0 \<or> e + 60 < 2 ^ 63 \<and> clock < of_int (e + 60)"
    and "caller_principal auth' = caller_principal auth"
    and "req_options request = Some opts" "opts \<noteq> []"
      "read_batch opts = Inr (ticket_batch n (ticket t))" "eq_ignore_ascii_case n ATTACH_TICKET_OPTION"
  shows "redeem_attach_ticket opn E read_batch cast request (Some key) auth' clock
    = Inr (Some \<lparr>req_name = seal_catalog_name sreq,
                 req_options = opt_nonempty (sealed_options sreq names),
                 req_data_version_spec = opt_nonempty (seal_data_version_spec sreq),
                 req_implementation_version = opt_nonempty (seal_implementation_version sreq),
                 req_client_capabilities = req_client_capabilities request\<rparr>)"
proof -
  let ?c = "seal_claims sreq names max_ttl raw now"
  from sealed obtain who where who: "caller_principal auth = Some who"
    and mint: "mint_with_nonce seal E key who ?c nonce = Inr (ticket t)"
    and ok: "sealed_options sreq names \<noteq> [] \<longrightarrow> is_ok (read_batch (sealed_options sreq names))"
    unfolding names by (rule seal_attach_Inr) blast
  have "claims_valid ?c" using mint unfolding mint_iff by blast
  then have "claims_ok ?c" using assms(4-7) by (intro seal_claims_ok)
  then have "open_attach_ticket opn E key (ticket t) (Some who) clock = Inr ?c"
    using mint_opens_live [OF assms(1,2) _ mint, of clock] assms(10,11) exp by (simp add: seal_claims_def)
  then show ?thesis
    using redeem_ticket_batch [where read_batch = read_batch, OF assms(13-16)] who assms(12) ok
    by (auto simp: redeemed_request_def seal_claims_def)
qed

text \<open>A concrete worker, caller and request, for evaluation.\<close>

definition sample_auth :: auth_context where
  "sample_auth = \<lparr>authenticated = True, auth_domain = ''jwt'', auth_principal = ''alice''\<rparr>"

definition sample_disp :: dispatcher where
  "sample_disp =
     \<lparr>disp_catalog_name = ''sales'', disp_catalog = \<lparr>model_name = [], attach_option_specs = []\<rparr>,
      disp_secondary = [], disp_stored = []\<rparr>"

definition sample_seal :: seal_attach_request where
  "sample_seal =
     \<lparr>seal_catalog_name = ''sales'', seal_options = None, seal_data_version_spec = ''v1'',
      seal_implementation_version = [], ttl_seconds = 600\<rparr>"

definition sample_sealed_claims :: attach_ticket_claims where
  "sample_sealed_claims = seal_claims sample_seal [] (Some 300) (replicate 16 0xAB) 1000"

definition sample_token :: string where
  "sample_token = projr (mint_with_nonce clear_seal url_engine [9] ''alice'' sample_sealed_claims [])"

definition sample_reader :: read_batch_fn where
  "sample_reader bs = Inr (ticket_batch ''VGI_Attach_Ticket'' sample_token)"

definition sample_request :: catalog_attach_request where
  "sample_request =
     \<lparr>req_name = ''ignored'', req_options = Some [1], req_data_version_spec = None,
      req_implementation_version = None, req_client_capabilities = Some [5]\<rparr>"

lemma sample_ticket_id: "new_ticket_id (replicate 16 0xAB) = concat (replicate 16 ''ab'')"
proof -
  have "hex2 0xAB = ''ab''" by code_simp
  then show ?thesis by (simp add: new_ticket_id_def)
qed

lemma sample_sealed_claims_eq:
  "sample_sealed_claims =
     \<lparr>issued_at = 1000, expires_at = 1300, ticket_id = concat (replicate 16 ''ab''), catalog_name = ''sales'',
      data_version_spec = ''v1'', implementation_version = [], options_ipc = []\<rparr>"
  by (simp add: sample_sealed_claims_def seal_claims_def sample_seal_def ticket_lifetime_def
      sample_ticket_id sealed_options_def i64_range_def)

lemma sample_id_valid: "is_ticket_id (concat (replicate 16 ''ab''))"
  by (simp add: is_ticket_id_def list_all_iff length_concat sum_list_replicate is_ascii_digit_def)

lemma sample_sealed_mint:
  "mint_with_nonce clear_seal url_engine [9] ''alice'' sample_sealed_claims [] = Inr sample_token"
proof -
  have "\<exists>tok. mint_with_nonce clear_seal url_engine [9] ''alice'' sample_sealed_claims [] = Inr tok"
    by (rule small_mint)
       (simp_all add: claims_valid_def sample_sealed_claims_eq sample_id_valid length_concat sum_list_replicate)
  then show ?thesis by (auto simp: sample_token_def)
qed

lemma sample_seal_attach:
  "seal_attach clear_seal url_engine sample_reader Some [] (replicate 16 0xAB) sample_disp [9] (Some 300)
     sample_seal sample_auth 1000 = Inr \<lparr>ticket = sample_token, ticket_expires_at = Some 1300\<rparr>"
  using sample_sealed_mint
  by (simp add: seal_attach_def caller_principal_def sample_auth_def sample_seal_def Let_def
      seal_violations_def option_names_def attach_option_specs_of_def sample_disp_def
      option_violations_def declared_options_def attach_option_names_def map_filter_def
      sealed_options_def ticket_expiry_def sample_sealed_claims_def seal_claims_def ticket_lifetime_def
      i64_range_def)

lemma sample_option_case: "eq_ignore_ascii_case ''VGI_Attach_Ticket'' ATTACH_TICKET_OPTION"
  by code_simp

theorem seal_then_redeem_witness:
  "redeem_attach_ticket clear_open url_engine sample_reader (\<lambda>a t. Inr a) sample_request (Some [9])
     sample_auth 1200
   = Inr (Some \<lparr>req_name = ''sales'', req_options = None, req_data_version_spec = Some ''v1'',
                req_implementation_version = None, req_client_capabilities = Some [5]\<rparr>)"
  using seal_then_redeem [OF clear_aead_correct url_engine_spec sample_seal_attach, of _ _ 1200 sample_auth
      sample_request "[1]" "''VGI_Attach_Ticket''" "\<lambda>a t. Inr a", OF _ _ _ _ refl refl]
  by (simp add: sample_seal_def sample_request_def sample_reader_def rust_str_ascii
      i64_range_def option_names_def request_batch_def seal_claims_def ticket_lifetime_def
      sealed_options_def opt_nonempty_def sample_option_case)

section \<open>Redemption is authentic, sealing is bounded\<close>

text \<open>The ticket a request presents: the one string of its only option, whose name is the ticket option's.\<close>

definition presents :: "read_batch_fn \<Rightarrow> cast_fn \<Rightarrow> catalog_attach_request \<Rightarrow> string \<Rightarrow> bool" where
  "presents read_batch cast request tok \<longleftrightarrow>
     (\<exists>opts batch f. req_options request = Some opts \<and> opts \<noteq> [] \<and> read_batch opts = Inr batch
        \<and> schema_fields batch = [f] \<and> eq_ignore_ascii_case (field_name f) ATTACH_TICKET_OPTION
        \<and> num_rows batch = 1 \<and> string_value cast (columns batch ! 0) = Some tok)"

lemma only_option:
  "position P names = Some i \<and> other_options names i = [] \<longleftrightarrow> i = 0 \<and> (\<exists>n. names = [n] \<and> P n)"
proof
  assume a: "position P names = Some i \<and> other_options names i = []"
  have same: "j = i" if "j < length names" for j
  proof (rule ccontr)
    assume "j \<noteq> i"
    moreover have "(j, names ! j) \<in> set (List.enumerate 0 names)" using that by (simp add: in_set_enumerate_eq)
    ultimately show False using a by (force simp: other_options_def filter_empty_conv)
  qed
  obtain n ns where names: "names = n # ns" using a by (cases names) auto
  then have "ns = []" using same [of 0] same [of 1] by (cases ns) auto
  then show "i = 0 \<and> (\<exists>n. names = [n] \<and> P n)" using a names by (auto split: if_splits)
qed (auto simp: other_options_def)

lemma redeem_Some:
  "redeem_attach_ticket opn E read_batch cast request key auth now = Inr (Some r) \<longleftrightarrow>
     (\<exists>tok k c. presents read_batch cast request tok \<and> key = Some k
        \<and> open_attach_ticket opn E k tok (caller_principal auth) now = Inr c
        \<and> redeemed_request read_batch request c = Inr (Some r))"
  (is "?l \<longleftrightarrow> ?r")
proof
  assume ?l
  then obtain opts batch ti tok k c where
    *: "Option.bind (req_options request) opt_nonempty = Some opts" "read_batch opts = Inr batch"
    and pos: "position (\<lambda>n. eq_ignore_ascii_case n ATTACH_TICKET_OPTION) (map field_name (schema_fields batch)) = Some ti"
      "other_options (map field_name (schema_fields batch)) ti = []"
    and tok: "(if num_rows batch = 1 then string_value cast (columns batch ! ti) else None) = Some tok"
    and "key = Some k" "open_attach_ticket opn E k tok (caller_principal auth) now = Inr c"
      "redeemed_request read_batch request c = Inr (Some r)"
    unfolding redeem_attach_ticket_def Let_def
    by (auto simp: rbind_eq_Inr_iff split: option.splits sum.splits if_splits)
  moreover have "presents read_batch cast request tok"
    using *  tok only_option [THEN iffD1, OF conjI, OF pos]
    by (auto simp: presents_def opt_nonempty_def bind_eq_Some_conv map_eq_Cons_conv split: if_splits)
  ultimately show ?r by blast
next
  assume ?r
  then show ?l
    by (auto simp: redeem_attach_ticket_def presents_def opt_nonempty_def other_options_def Let_def)
qed

lemma redeemed_request_iff:
  "redeemed_request read_batch request c = Inr (Some r) \<longleftrightarrow>
     (options_ipc c = [] \<or> is_ok (read_batch (options_ipc c)))
     \<and> r = \<lparr>req_name = catalog_name c, req_options = opt_nonempty (options_ipc c),
            req_data_version_spec = opt_nonempty (data_version_spec c),
            req_implementation_version = opt_nonempty (implementation_version c),
            req_client_capabilities = req_client_capabilities request\<rparr>"
  by (auto simp: redeemed_request_def)

text \<open>C11: A worker replaces an attach exactly when the request presents, as its only option, a ticket that
  the worker's own key sealed for the very principal making the request, while the ticket's lifetime
  runs; and then by the attach that this ticket stands for: its catalog name, options and version
  specs, with only the client capabilities taken from the request. A worker without a key, a ticket
  of another principal, and a ticket the worker did not seal replace nothing.\<close>

theorem redeem_authentic:
  assumes "aead_correct seal opn" "aead_authentic seal opn" "b64url_spec E"
  shows "redeem_attach_ticket opn E read_batch cast request key auth now = Inr (Some r) \<longleftrightarrow>
    (\<exists>tok k c. presents read_batch cast request tok \<and> key = Some k
       \<and> authentic_for seal E k (caller_principal auth) tok c \<and> live_at now c
       \<and> (options_ipc c = [] \<or> is_ok (read_batch (options_ipc c)))
       \<and> r = \<lparr>req_name = catalog_name c, req_options = opt_nonempty (options_ipc c),
              req_data_version_spec = opt_nonempty (data_version_spec c),
              req_implementation_version = opt_nonempty (implementation_version c),
              req_client_capabilities = req_client_capabilities request\<rparr>)"
  unfolding redeem_Some redeemed_request_iff open_outcomes(1) [OF assms] by blast

lemma sample_presents: "presents sample_reader (\<lambda>a t. Inr a) sample_request tok \<longleftrightarrow> tok = sample_token"
proof -
  have "sample_reader [1] = Inr (ticket_batch ''VGI_Attach_Ticket'' sample_token)"
    by (simp add: sample_reader_def)
  then show ?thesis
    using sample_option_case
    by (auto simp: presents_def sample_request_def ticket_batch_def string_value_def downcast_def array_len_def
        is_null_def str_value_def)
qed

lemma sample_sealed_ok: "claims_ok sample_sealed_claims"
  by (simp add: sample_sealed_claims_eq claims_ok_def i64_range_def rust_str_ascii ticket_id_ascii sample_id_valid)

text \<open>The sealed attach, redeemed by its principal in time; a worker without a key redeems nothing.\<close>

theorem redeem_authentic_witness:
  "redeem_attach_ticket clear_open url_engine sample_reader (\<lambda>a t. Inr a) sample_request (Some [9]) sample_auth 1200
     = Inr (Some \<lparr>req_name = ''sales'', req_options = None, req_data_version_spec = Some ''v1'',
                  req_implementation_version = None, req_client_capabilities = Some [5]\<rparr>)
   \<and> presents sample_reader (\<lambda>a t. Inr a) sample_request sample_token
   \<and> redeem_attach_ticket clear_open url_engine sample_reader (\<lambda>a t. Inr a) sample_request None sample_auth 1200
     \<noteq> Inr (Some \<lparr>req_name = ''sales'', req_options = None, req_data_version_spec = Some ''v1'',
                  req_implementation_version = None, req_client_capabilities = Some [5]\<rparr>)"
proof -
  note exact = redeem_authentic [OF clear_aead_correct clear_aead_authentic url_engine_spec]
  have "authentic_for clear_seal url_engine [9] (caller_principal sample_auth) sample_token sample_sealed_claims"
    using sample_sealed_ok sample_sealed_mint
    by (auto simp: authentic_for_def caller_principal_def sample_auth_def)
  moreover have "live_at 1200 sample_sealed_claims" by (simp add: live_at_def sample_sealed_claims_eq i64_range_def)
  ultimately show ?thesis
    unfolding exact sample_presents
    by (intro conjI exI [of _ sample_token] exI [of _ "[9]"] exI [of _ sample_sealed_claims])
       (simp_all add: sample_sealed_claims_eq opt_nonempty_def sample_request_def)
qed

text \<open>C30: A worker with a lifetime ceiling issues no ticket that outlives it: every ticket
  seal_attach returns is minted for claims that expire after the moment of issue and at most the
  ceiling later, whatever lifetime was requested.\<close>

theorem seal_attach_lifetime_capped:
  assumes "seal_attach seal E read_batch ts nonce raw disp key (Some cap) request auth now = Inr t"
    and "0 < cap" "0 \<le> now" "now + cap < 2 ^ 63"
  shows "\<exists>who c. mint_with_nonce seal E key who c nonce = Inr (ticket t) \<and> issued_at c = now
           \<and> now < expires_at c \<and> expires_at c \<le> now + cap
           \<and> ticket_expires_at t = ts (expires_at c)"
proof -
  let ?c = "seal_claims request (option_names (request_batch read_batch request)) (Some cap) raw now"
  from assms(1) obtain who where
    mint: "mint_with_nonce seal E key who ?c nonce = Inr (ticket t)"
    and vs: "seal_violations read_batch disp request (request_batch read_batch request) = []"
    and tx: "ticket_expires_at t = ticket_expiry ts (expires_at ?c)"
    by (rule seal_attach_Inr)
  from vs have "0 \<le> ttl_seconds request" by (auto simp: seal_violations_def Let_def split: if_splits)
  then obtain l where l: "ticket_lifetime (ttl_seconds request) (Some cap) = Some l" "0 < l" "l \<le> cap"
    using assms(2) by (cases "ttl_seconds request = 0") (simp_all add: ticket_lifetime_def)
  then have "expires_at ?c = now + l"
    using assms(3,4) by (simp add: seal_claims_def i64_range_def)
  then show ?thesis
    using mint l assms(3) tx by (intro exI [of _ who] exI [of _ ?c]) (simp add: seal_claims_def ticket_expiry_def)
qed

theorem seal_attach_lifetime_capped_witness:
  "\<exists>who c. mint_with_nonce clear_seal url_engine [9] who c [] = Inr sample_token \<and> issued_at c = 1000
     \<and> 1000 < expires_at c \<and> expires_at c \<le> 1000 + 300 \<and> Some 1300 = Some (expires_at c)"
  using seal_attach_lifetime_capped [OF sample_seal_attach] by simp

end
