(* ===== verification/Storage.thy ===== *)
theory Storage
  imports VGI_Prelude
begin

text \<open>
  The worker's state store: the contract of the \<open>FunctionStorage\<close> trait
  (\<open>src/vgi/src/storage/mod.rs\<close>) as a locale, the in-memory backend
  (\<open>src/vgi/src/storage/memory.rs\<close>) as its implementation, and the client that relies on it most,
  the FINALIZE flush of \<open>src/vgi/src/dispatch.rs\<close>: rows appended once, then drained one per turn by
  a cursor that survives in a continuation token.
\<close>

type_synonym log_key = "bytes \<times> bytes \<times> bytes"
type_synonym log_entries = "(int \<times> bytes) list"

section \<open>Clients of the trait\<close>

type_synonym 'st append_fn = "'st \<Rightarrow> bytes \<Rightarrow> bytes \<Rightarrow> bytes \<Rightarrow> bytes \<Rightarrow> int \<times> 'st"
type_synonym 'st scan_fn = "'st \<Rightarrow> bytes \<Rightarrow> bytes \<Rightarrow> bytes \<Rightarrow> int \<Rightarrow> nat \<Rightarrow> log_entries"

text \<open>The trait's default \<open>append_many\<close>.\<close>

fun append_many :: "'st append_fn \<Rightarrow> 'st \<Rightarrow> bytes \<Rightarrow> bytes \<Rightarrow> bytes \<Rightarrow> bytes list \<Rightarrow> int list \<times> 'st" where
  "append_many log_append st scope ns key [] = ([], st)"
| "append_many log_append st scope ns key (v # vs) =
     (let (i, st) = log_append st scope ns key v;
          (is, st) = append_many log_append st scope ns key vs
      in (i # is, st))"

definition TIO_FINALIZE_NS :: bytes where
  "TIO_FINALIZE_NS = as_bytes ''_vgi/tio_finalize_flush''"

record flush_producer =
  fp_scope :: bytes
  fp_key :: bytes
  fp_cursor :: int
  fp_remaining :: int
  fp_function_name :: string

definition flush_lost :: "flush_producer \<Rightarrow> rpc_error" where
  "flush_lost p = runtime_error
     (''cannot resume the FINALIZE flush for '' @ [CHR 0x27] @ fp_function_name p @ [CHR 0x27] @ '': ''
      @ show_int (fp_remaining p) @ '' of its persisted batches are ''
      @ ''gone from storage. The continuation is served by whichever worker ''
      @ ''instance receives it, so the storage backend must be shared across ''
      @ ''every instance behind the endpoint (and must outlive a single ''
      @ ''request); an in-memory store cannot serve HTTP continuations.'')"

text \<open>One turn: \<open>FinalizeFlushProducer::next_batch\<close>. Decoding an IPC row is the parameter.\<close>

definition next_batch ::
    "'st scan_fn \<Rightarrow> (bytes \<Rightarrow> 'b result) \<Rightarrow> 'st \<Rightarrow> flush_producer \<Rightarrow> 'b option result \<times> flush_producer" where
  "next_batch scan decode st p =
     (if fp_remaining p \<le> 0 then (Inr None, p)
      else
        (case scan st (fp_scope p) TIO_FINALIZE_NS (fp_key p) (fp_cursor p) 1 of
           [] \<Rightarrow> (Inl (flush_lost p), p)
         | (i, v) # _ \<Rightarrow>
             (rbind (decode v) (\<lambda>b. Inr (Some b)),
              p\<lparr>fp_cursor := i, fp_remaining := fp_remaining p - 1\<rparr>)))"

text \<open>The persisted flush at init: one log row per encoded batch, and the producer that drains them.\<close>

definition start_flush ::
    "'st append_fn \<Rightarrow> 'st \<Rightarrow> bytes \<Rightarrow> bytes \<Rightarrow> bytes list \<Rightarrow> string \<Rightarrow> 'st \<times> flush_producer" where
  "start_flush log_append st execution_id flush_key rows fname =
     (snd (append_many log_append st execution_id TIO_FINALIZE_NS flush_key rows),
      \<lparr>fp_scope = execution_id, fp_key = flush_key, fp_cursor = -1,
       fp_remaining = int (length rows), fp_function_name = fname\<rparr>)"

text \<open>The producer that holds its batches in memory, \<open>VecProducer\<close>.\<close>

record 'b vec_producer =
  vp_batches :: "'b list"
  vp_pos :: nat

definition vec_next :: "'b vec_producer \<Rightarrow> 'b option result \<times> 'b vec_producer" where
  "vec_next p =
     (if vp_pos p < length (vp_batches p)
      then (Inr (Some (vp_batches p ! vp_pos p)), p\<lparr>vp_pos := vp_pos p + 1\<rparr>)
      else (Inr None, p))"

fun vec_turns :: "nat \<Rightarrow> 'b vec_producer \<Rightarrow> 'b option result list" where
  "vec_turns 0 p = []"
| "vec_turns (Suc n) p = (let (r, p') = vec_next p in r # vec_turns n p')"

text \<open>
  The producer of a FINALIZE at init, and the blob it resumes from: the flush is persisted only over
  HTTP and for more than one batch. The IPC encoding of a batch is a parameter, and so is the
  outcome of serializing the call for the resume blob, whose failure leaves the rows in the log.
\<close>

datatype 'b finalize_producer = Persisted flush_producer bytes | InMemory "'b vec_producer"

definition finalize_init ::
    "'st append_fn \<Rightarrow> ('b \<Rightarrow> bytes result) \<Rightarrow> bytes result \<Rightarrow> bool \<Rightarrow> 'st \<Rightarrow> bytes \<Rightarrow> bytes \<Rightarrow> 'b list \<Rightarrow> string
       \<Rightarrow> 'b finalize_producer result \<times> 'st" where
  "finalize_init log_append encode exchange_blob http st execution_id flush_key batches fname =
     (if http \<and> length batches > 1 then
        (case collect_results (map encode batches) of
           Inl e \<Rightarrow> (Inl e, st)
         | Inr rows \<Rightarrow>
             (let (st, p) = start_flush log_append st execution_id flush_key rows fname
              in (rbind exchange_blob (\<lambda>blob. Inr (Persisted p blob)), st)))
      else (Inr (InMemory \<lparr>vp_batches = batches, vp_pos = 0\<rparr>), st))"

text \<open>
  Successive turns, each against the store as it is then: other streams may have changed it in
  between.
\<close>

fun turns ::
    "'st scan_fn \<Rightarrow> (bytes \<Rightarrow> 'b result) \<Rightarrow> 'st list \<Rightarrow> flush_producer \<Rightarrow> 'b option result list" where
  "turns scan decode [] p = []"
| "turns scan decode (st # sts) p =
     (let (r, p') = next_batch scan decode st p in r # turns scan decode sts p')"

section \<open>The contract\<close>

locale function_storage =
  fixes invar :: "'st \<Rightarrow> bool"
    and kvs :: "'st \<Rightarrow> bytes \<times> bytes \<Rightarrow> bytes option"
    and logs :: "'st \<Rightarrow> log_key \<Rightarrow> log_entries"
    and queues :: "'st \<Rightarrow> bytes \<Rightarrow> bytes list"
    and kv_get :: "'st \<Rightarrow> bytes \<Rightarrow> bytes \<Rightarrow> bytes option"
    and kv_put :: "'st \<Rightarrow> bytes \<Rightarrow> bytes \<Rightarrow> bytes \<Rightarrow> 'st"
    and kv_del :: "'st \<Rightarrow> bytes \<Rightarrow> bytes \<Rightarrow> 'st"
    and log_append :: "'st append_fn"
    and scan :: "'st scan_fn"
    and queue_push :: "'st \<Rightarrow> bytes \<Rightarrow> bytes list \<Rightarrow> 'st"
    and queue_pop :: "'st \<Rightarrow> bytes \<Rightarrow> bytes option \<times> 'st"
    and clear :: "'st \<Rightarrow> bytes \<Rightarrow> 'st"
  assumes kv_get: "invar st \<Longrightarrow> kv_get st s k = kvs st (s, k)"
    and kv_put: "invar st \<Longrightarrow> invar (kv_put st s k v) \<and> kvs (kv_put st s k v) = (kvs st)((s, k) \<mapsto> v)
      \<and> logs (kv_put st s k v) = logs st \<and> queues (kv_put st s k v) = queues st"
    and kv_del: "invar st \<Longrightarrow> invar (kv_del st s k) \<and> kvs (kv_del st s k) = (kvs st)((s, k) := None)
      \<and> logs (kv_del st s k) = logs st \<and> queues (kv_del st s k) = queues st"
    and log_append: "invar st \<Longrightarrow> log_append st s n k v = (i, st') \<Longrightarrow>
      invar st' \<and> 0 \<le> i \<and> (\<forall>(j, w) \<in> set (logs st (s, n, k)). j < i)
      \<and> logs st' = (logs st)((s, n, k) := logs st (s, n, k) @ [(i, v)])
      \<and> kvs st' = kvs st \<and> queues st' = queues st"
    and ids_sorted: "invar st \<Longrightarrow> sorted_wrt (<) (map fst (logs st lk))"
    and scan: "invar st \<Longrightarrow>
      scan st s n k after lim = take lim (filter (\<lambda>(i, v). after < i) (logs st (s, n, k)))"
    and queue_push: "invar st \<Longrightarrow> invar (queue_push st s items)
      \<and> queues (queue_push st s items) = (queues st)(s := queues st s @ items)
      \<and> kvs (queue_push st s items) = kvs st \<and> logs (queue_push st s items) = logs st"
    and queue_pop: "invar st \<Longrightarrow> queue_pop st s = (r, st') \<Longrightarrow> invar st' \<and> kvs st' = kvs st
      \<and> logs st' = logs st
      \<and> (case queues st s of [] \<Rightarrow> r = None \<and> queues st' = queues st
         | x # xs \<Rightarrow> r = Some x \<and> queues st' = (queues st)(s := xs))"
    and clear: "invar st \<Longrightarrow> invar (clear st s)
      \<and> kvs (clear st s) = (\<lambda>(s', k). if s' = s then None else kvs st (s', k))
      \<and> logs (clear st s) = (\<lambda>(s', n, k). if s' = s then [] else logs st (s', n, k))
      \<and> queues (clear st s) = (queues st)(s := [])"
begin

lemma append_many_logs:
  assumes "invar st" "append_many log_append st s n k vs = (is, st')"
  shows "invar st' \<and> length is = length vs \<and> (\<forall>i \<in> set is. 0 \<le> i)
    \<and> logs st' = (logs st)((s, n, k) := logs st (s, n, k) @ zip is vs)
    \<and> kvs st' = kvs st \<and> queues st' = queues st"
  using assms
proof (induction vs arbitrary: st st' "is")
  case (Cons v vs)
  obtain i st1 where a: "log_append st s n k v = (i, st1)" by fastforce
  obtain js st2 where b: "append_many log_append st1 s n k vs = (js, st2)" by fastforce
  have st1: "invar st1" "0 \<le> i" "logs st1 = (logs st)((s, n, k) := logs st (s, n, k) @ [(i, v)])"
    "kvs st1 = kvs st" "queues st1 = queues st"
    using log_append [OF Cons.prems(1) a] by auto
  have "is = i # js" "st' = st2" using Cons.prems(2) a b by auto
  then show ?case using Cons.IH [OF st1(1) b] st1 by auto
qed simp

text \<open>The rows of a log after a cursor that is the id of one of them are the rows behind it.\<close>

lemma filter_after:
  fixes es :: log_entries
  assumes "sorted_wrt (<) (map fst es)" "filter (\<lambda>(j, w). c < j) es = (i, v) # ys"
  shows "filter (\<lambda>(j, w). i < j) es = ys"
proof -
  have "(i, v) \<in> set (filter (\<lambda>(j, w). c < j) es)" using assms(2) by simp
  then have c: "c < i" by simp
  have "sorted_wrt (\<lambda>x y. fst x < fst y) ((i, v) # ys)"
    using sorted_wrt_filter [of "\<lambda>x y. fst x < fst y" es "\<lambda>(j, w). c < j"] assms
    by (simp add: sorted_wrt_map)
  then have ys: "filter (\<lambda>(j, w). i < j) ((i, v) # ys) = ys"
    by (auto simp: filter_id_conv)
  have "filter (\<lambda>(j, w). i < j) (filter (\<lambda>(j, w). c < j) es) = filter (\<lambda>(j, w). i < j) es"
    unfolding filter_filter using c by (intro filter_cong) auto
  then show ?thesis using ys assms(2) by simp
qed

lemma turns_suffix:
  assumes "\<forall>st \<in> set sts. invar st \<and> logs st (fp_scope p, TIO_FINALIZE_NS, fp_key p) = es"
    and "filter (\<lambda>(j, w). fp_cursor p < j) es = ys" and "fp_remaining p = int (length ys)"
    and "sorted_wrt (<) (map fst es)" and "length sts = Suc (length ys)"
  shows "turns scan decode sts p
           = map (\<lambda>(i, v). rbind (decode v) (\<lambda>b. Inr (Some b))) ys @ [Inr None]"
  using assms
proof (induction ys arbitrary: sts p)
  case Nil
  then obtain st where "sts = [st]" by (cases sts) auto
  with Nil show ?case by (simp add: next_batch_def)
next
  case (Cons y ys)
  obtain i v where y: "y = (i, v)" by fastforce
  obtain st sts' where sts: "sts = st # sts'" using Cons.prems(5) by (cases sts) auto
  let ?p = "p\<lparr>fp_cursor := i, fp_remaining := fp_remaining p - 1\<rparr>"
  have st: "invar st" "logs st (fp_scope p, TIO_FINALIZE_NS, fp_key p) = es"
    using Cons.prems(1) unfolding sts by simp_all
  have "scan st (fp_scope p) TIO_FINALIZE_NS (fp_key p) (fp_cursor p) 1 = [(i, v)]"
    unfolding scan [OF st(1)] st(2) Cons.prems(2) y by simp
  then have nb: "next_batch scan decode st p = (rbind (decode v) (\<lambda>b. Inr (Some b)), ?p)"
    using Cons.prems(3) by (simp add: next_batch_def)
  have "turns scan decode sts' ?p
      = map (\<lambda>(i, v). rbind (decode v) (\<lambda>b. Inr (Some b))) ys @ [Inr None]"
  proof (rule Cons.IH)
    show "\<forall>st \<in> set sts'. invar st \<and> logs st (fp_scope ?p, TIO_FINALIZE_NS, fp_key ?p) = es"
      using Cons.prems(1) sts by simp
    show "filter (\<lambda>(j, w). fp_cursor ?p < j) es = ys"
      using filter_after [OF Cons.prems(4), of "fp_cursor p" i v ys] Cons.prems(2) y by simp
    show "fp_remaining ?p = int (length ys)" using Cons.prems(3) by simp
    show "length sts' = Suc (length ys)" using Cons.prems(5) sts by simp
  qed (rule Cons.prems(4))
  then show ?case using sts nb y by simp
qed

lemma flush_drains:
  assumes "invar st" "logs st (s, TIO_FINALIZE_NS, k) = []"
    and "start_flush log_append st s k rows fname = (st', p)"
    and "\<forall>t \<in> set sts. invar t \<and> logs t (s, TIO_FINALIZE_NS, k) = logs st' (s, TIO_FINALIZE_NS, k)"
    and "length sts = Suc (length rows)"
  shows "turns scan decode sts p = map (\<lambda>v. rbind (decode v) (\<lambda>b. Inr (Some b))) rows @ [Inr None]"
proof -
  obtain "is" st1 where am: "append_many log_append st s TIO_FINALIZE_NS k rows = (is, st1)" by fastforce
  then have st': "st' = st1" and p: "p = \<lparr>fp_scope = s, fp_key = k, fp_cursor = -1,
      fp_remaining = int (length rows), fp_function_name = fname\<rparr>"
    using assms(3) by (auto simp: start_flush_def)
  have log: "logs st' (s, TIO_FINALIZE_NS, k) = zip is rows" and len: "length is = length rows"
    and inv: "invar st'" and pos: "\<forall>i \<in> set is. 0 \<le> i"
    using append_many_logs [OF assms(1) am] assms(2) st' by auto
  have "filter (\<lambda>(j, w). -1 < j) (zip is rows) = zip is rows"
    using pos by (auto simp: filter_id_conv dest!: set_zip_leftD)
  moreover have "sorted_wrt (<) (map fst (zip is rows))"
    using ids_sorted [OF inv, of "(s, TIO_FINALIZE_NS, k)"] log by simp
  ultimately have "turns scan decode sts p
      = map (\<lambda>(i, v). rbind (decode v) (\<lambda>b. Inr (Some b))) (zip is rows) @ [Inr None]"
    using assms(4,5) p log len by (intro turns_suffix [of sts p "zip is rows"]) auto
  also have "map (\<lambda>(i, v). rbind (decode v) (\<lambda>b. Inr (Some b))) (zip is rows)
      = map (\<lambda>v. rbind (decode v) (\<lambda>b. Inr (Some b))) (map snd (zip is rows))"
    by (simp add: comp_def case_prod_beta)
  finally show ?thesis using len by simp
qed

end

section \<open>The in-memory backend\<close>

record memory_inner =
  mem_kv :: "bytes \<times> bytes \<Rightarrow> bytes option"
  mem_log :: "log_key \<Rightarrow> log_entries option"
  mem_queue :: "bytes \<Rightarrow> bytes list option"
  next_id :: int

definition memory_new :: memory_inner where
  "memory_new = \<lparr>mem_kv = Map.empty, mem_log = Map.empty, mem_queue = Map.empty, next_id = 0\<rparr>"

definition mem_kv_get :: "memory_inner \<Rightarrow> bytes \<Rightarrow> bytes \<Rightarrow> bytes option" where
  "mem_kv_get g scope key = mem_kv g (scope, key)"

definition mem_kv_put :: "memory_inner \<Rightarrow> bytes \<Rightarrow> bytes \<Rightarrow> bytes \<Rightarrow> memory_inner" where
  "mem_kv_put g scope key val = g\<lparr>mem_kv := (mem_kv g)((scope, key) \<mapsto> val)\<rparr>"

definition mem_kv_del :: "memory_inner \<Rightarrow> bytes \<Rightarrow> bytes \<Rightarrow> memory_inner" where
  "mem_kv_del g scope key = g\<lparr>mem_kv := (mem_kv g)((scope, key) := None)\<rparr>"

definition or_default :: "'a list option \<Rightarrow> 'a list" where
  "or_default v = (case v of None \<Rightarrow> [] | Some xs \<Rightarrow> xs)"

text \<open>
  The next id is an \<open>i64\<close> that starts at zero and grows by one per append, so it stays in
  range for as long as fewer than \<open>2 ^ 63\<close> rows were appended; here it is an integer.
\<close>

definition mem_append :: "memory_inner append_fn" where
  "mem_append g scope ns key val =
     (let i = next_id g
      in (i, g\<lparr>next_id := i + 1,
              mem_log := (mem_log g)((scope, ns, key) \<mapsto> or_default (mem_log g (scope, ns, key)) @ [(i, val)])\<rparr>))"

text \<open>\<open>slice::partition_point\<close>: the binary search for the first element that fails the predicate.\<close>

function partition_point :: "('a \<Rightarrow> bool) \<Rightarrow> 'a list \<Rightarrow> nat \<Rightarrow> nat \<Rightarrow> nat" where
  "partition_point P xs lo hi =
     (if lo < hi then
        (let mid = lo + (hi - lo) div 2
         in if P (xs ! mid) then partition_point P xs (Suc mid) hi else partition_point P xs lo mid)
      else lo)"
  by pat_completeness auto
termination by (relation "measure (\<lambda>(P, xs, lo, hi). hi - lo)") auto

declare partition_point.simps [simp del]

definition mem_scan :: "memory_inner scan_fn" where
  "mem_scan g scope ns key after_id limit =
     (case mem_log g (scope, ns, key) of
        Some entries \<Rightarrow>
          (let start = partition_point (\<lambda>(i, _). i \<le> after_id) entries 0 (length entries)
           in take limit (drop start entries))
      | None \<Rightarrow> [])"

definition mem_queue_push :: "memory_inner \<Rightarrow> bytes \<Rightarrow> bytes list \<Rightarrow> memory_inner" where
  "mem_queue_push g scope items =
     g\<lparr>mem_queue := (mem_queue g)(scope \<mapsto> foldl (\<lambda>q item. q @ [item]) (or_default (mem_queue g scope)) items)\<rparr>"

definition mem_queue_pop :: "memory_inner \<Rightarrow> bytes \<Rightarrow> bytes option \<times> memory_inner" where
  "mem_queue_pop g scope =
     (case mem_queue g scope of
        Some (x # xs) \<Rightarrow> (Some x, g\<lparr>mem_queue := (mem_queue g)(scope \<mapsto> xs)\<rparr>)
      | _ \<Rightarrow> (None, g))"

definition mem_clear :: "memory_inner \<Rightarrow> bytes \<Rightarrow> memory_inner" where
  "mem_clear g s =
     g\<lparr>mem_kv := (\<lambda>(sc, k). if sc \<noteq> s then mem_kv g (sc, k) else None),
       mem_log := (\<lambda>(sc, n, k). if sc \<noteq> s then mem_log g (sc, n, k) else None),
       mem_queue := (mem_queue g)(s := None)\<rparr>"

subsection \<open>Binary search\<close>

lemma partition_point_correct:
  assumes "lo \<le> n" "n \<le> hi" "hi \<le> length xs"
    and "\<And>i. i < length xs \<Longrightarrow> P (xs ! i) \<longleftrightarrow> i < n"
  shows "partition_point P xs lo hi = n"
  using assms
proof (induction P xs lo hi rule: partition_point.induct)
  case (1 P xs lo hi)
  let ?m = "lo + (hi - lo) div 2"
  show ?case
  proof (cases "lo < hi")
    case False
    with 1(3,4) show ?thesis by (simp add: partition_point.simps [of P xs lo hi])
  next
    case True
    then have m: "lo \<le> ?m" "?m < hi" by auto
    then have "P (xs ! ?m) \<longleftrightarrow> ?m < n" using 1(5,6) by simp
    then show ?thesis
      using True m 1(1) [OF True refl] 1(2) [OF True refl] 1(3-6)
      by (simp add: partition_point.simps [of P xs lo hi] Let_def)
  qed
qed

definition mem_logs :: "memory_inner \<Rightarrow> log_key \<Rightarrow> log_entries" where
  "mem_logs g lk = or_default (mem_log g lk)"

definition mem_queues :: "memory_inner \<Rightarrow> bytes \<Rightarrow> bytes list" where
  "mem_queues g s = or_default (mem_queue g s)"

definition mem_ok :: "memory_inner \<Rightarrow> bool" where
  "mem_ok g \<longleftrightarrow> 0 \<le> next_id g
     \<and> (\<forall>lk. sorted_wrt (<) (map fst (mem_logs g lk)) \<and> (\<forall>(i, v) \<in> set (mem_logs g lk). i < next_id g))"

lemma sorted_filter_drop:
  fixes es :: log_entries
  assumes "sorted_wrt (<) (map fst es)"
  shows "filter (\<lambda>(i, v). c < i) es = drop (length (takeWhile (\<lambda>(i, v). i \<le> c) es)) es"
proof -
  have "filter (\<lambda>(i, v). c < i) es = dropWhile (\<lambda>(i, v). i \<le> c) es"
    using assms
  proof (induction es)
    case (Cons e es)
    show ?case
    proof (cases "fst e \<le> c")
      case False
      with Cons.prems have "filter (\<lambda>(i, v). c < i) (e # es) = e # es"
        by (auto simp: filter_id_conv)
      moreover have "dropWhile (\<lambda>(i, v). i \<le> c) (e # es) = e # es"
        using False by (simp add: case_prod_beta)
      ultimately show ?thesis by (simp only:)
    qed (use Cons in \<open>simp add: case_prod_beta\<close>)
  qed simp
  then show ?thesis by (simp add: dropWhile_eq_drop)
qed

lemma takeWhile_sorted_iff:
  fixes es :: log_entries
  assumes "sorted_wrt (<) (map fst es)" "j < length es"
  shows "fst (es ! j) \<le> c \<longleftrightarrow> j < length (takeWhile (\<lambda>(i, v). i \<le> c) es)"
  using assms
proof (induction es arbitrary: j)
  case (Cons e es)
  show ?case
  proof (cases j)
    case 0
    then show ?thesis by (simp add: case_prod_beta)
  next
    case (Suc m)
    with Cons.prems have "fst e < fst (es ! m)" by simp
    moreover have "fst (es ! m) \<le> c \<longleftrightarrow> m < length (takeWhile (\<lambda>(i, v). i \<le> c) es)"
      using Cons Suc by simp
    ultimately show ?thesis using Suc by (cases e) auto
  qed
qed simp

lemma mem_append_eq:
  assumes "mem_append g s n k v = (i, g')"
  shows "i = next_id g" "next_id g' = next_id g + 1" "mem_kv g' = mem_kv g" "mem_queue g' = mem_queue g"
    "mem_logs g' = (mem_logs g)((s, n, k) := mem_logs g (s, n, k) @ [(i, v)])"
  using assms by (auto simp: mem_append_def Let_def mem_logs_def or_default_def fun_eq_iff)

lemma mem_ok_append:
  assumes "mem_ok g" "mem_append g s n k v = (i, g')"
  shows "mem_ok g'"
  unfolding mem_ok_def
proof (intro conjI allI)
  note eq = mem_append_eq [OF assms(2)]
  have old: "sorted_wrt (<) (map fst (mem_logs g lk))" "\<forall>(j, w) \<in> set (mem_logs g lk). j < next_id g" for lk
    using assms(1) unfolding mem_ok_def by blast+
  show "0 \<le> next_id g'" using assms(1) eq(2) by (simp add: mem_ok_def)
  show "sorted_wrt (<) (map fst (mem_logs g' lk))" for lk
    using old [of lk] eq(1) by (auto simp: eq(5) sorted_wrt_append)
  show "\<forall>(j, w) \<in> set (mem_logs g' lk). j < next_id g'" for lk
    using old(2) [of lk] eq(1) by (auto simp: eq(5) eq(2) split: if_splits)
qed

lemma mem_scan_filter:
  assumes "mem_ok g"
  shows "mem_scan g s n k after lim = take lim (filter (\<lambda>(i, v). after < i) (mem_logs g (s, n, k)))"
proof (cases "mem_log g (s, n, k)")
  case None
  then show ?thesis by (simp add: mem_scan_def mem_logs_def or_default_def)
next
  case (Some es)
  then have so: "sorted_wrt (<) (map fst es)"
    using assms unfolding mem_ok_def mem_logs_def or_default_def by (metis option.simps(5))
  have "partition_point (\<lambda>(i, _). i \<le> after) es 0 (length es) = length (takeWhile (\<lambda>(i, v). i \<le> after) es)"
    using takeWhile_sorted_iff [OF so] by (intro partition_point_correct) (auto simp: length_takeWhile_le case_prod_beta)
  then show ?thesis
    using Some sorted_filter_drop [OF so] by (simp add: mem_scan_def mem_logs_def or_default_def)
qed

lemma mem_ok_frame: "mem_ok g \<Longrightarrow> mem_logs g' = mem_logs g \<Longrightarrow> next_id g' = next_id g \<Longrightarrow> mem_ok g'"
  by (simp add: mem_ok_def)

lemma mem_logs_clear: "mem_logs (mem_clear g s) = (\<lambda>(s', n, k). if s' = s then [] else mem_logs g (s', n, k))"
  by (auto simp: mem_clear_def mem_logs_def or_default_def fun_eq_iff)

lemma mem_ok_clear: "mem_ok g \<Longrightarrow> mem_ok (mem_clear g s)"
  unfolding mem_ok_def mem_logs_clear by (auto simp: mem_clear_def) blast

interpretation mem: function_storage mem_ok mem_kv mem_logs mem_queues mem_kv_get mem_kv_put mem_kv_del
  mem_append mem_scan mem_queue_push mem_queue_pop mem_clear
proof (unfold_locales, goal_cases)
  case (4 st s n k v i st')
  note eq = mem_append_eq [OF 4(2)]
  have "0 \<le> i" "\<forall>(j, w) \<in> set (mem_logs st (s, n, k)). j < i"
    using 4(1) eq(1) unfolding mem_ok_def by auto
  then show ?case
    using mem_ok_append [OF 4] eq by (simp add: mem_queues_def fun_eq_iff)
next
  case (6 st s n k after lim)
  then show ?case by (rule mem_scan_filter)
next
  case (7 st s items)
  have "foldl (\<lambda>q item. q @ [item]) q items = q @ items" for q by (induction items arbitrary: q) simp_all
  then show ?case
    using mem_ok_frame [OF 7, of "mem_queue_push st s items"]
    by (auto simp: mem_queue_push_def mem_logs_def mem_queues_def or_default_def fun_eq_iff)
next
  case (8 st s r st')
  then have "mem_logs st' = mem_logs st" "next_id st' = next_id st" "mem_kv st' = mem_kv st"
    by (auto simp: mem_queue_pop_def mem_logs_def split: option.splits list.splits)
  moreover from this have "mem_ok st'" using mem_ok_frame [OF 8(1)] by simp
  moreover have "case mem_queues st s of [] \<Rightarrow> r = None \<and> mem_queues st' = mem_queues st
      | x # xs \<Rightarrow> r = Some x \<and> mem_queues st' = (mem_queues st)(s := xs)"
    using 8(2) by (auto simp: mem_queue_pop_def mem_queues_def or_default_def fun_eq_iff
        split: option.splits list.splits)
  ultimately show ?case by simp
next
  case (9 st s)
  then show ?case
    using mem_ok_clear [OF 9, of s] mem_logs_clear [of st s]
    by (auto simp: mem_clear_def mem_queues_def or_default_def fun_eq_iff)
qed (auto simp: mem_kv_get_def mem_kv_put_def mem_kv_del_def mem_ok_def mem_logs_def mem_queues_def)

section \<open>Properties of the backend\<close>

inductive mem_step :: "memory_inner \<Rightarrow> memory_inner \<Rightarrow> bool" where
  "mem_step g (mem_kv_put g s k v)"
| "mem_step g (mem_kv_del g s k)"
| "mem_step g (snd (mem_append g s n k v))"
| "mem_step g (mem_queue_push g s items)"
| "mem_step g (snd (mem_queue_pop g s))"
| "mem_step g (mem_clear g s)"

lemma mem_step_ok: "mem_step g g' \<Longrightarrow> mem_ok g \<Longrightarrow> mem_ok g'"
proof (induction rule: mem_step.induct)
  case (3 g s n k v)
  then show ?case using mem_ok_append [OF 3] by (metis prod.collapse)
next
  case (5 g s)
  then show ?case using mem.queue_pop [OF 5] by (metis prod.collapse)
qed (use mem.kv_put mem.kv_del mem.queue_push mem.clear in blast)+

lemma mem_new_ok: "mem_ok memory_new"
  by (simp add: mem_ok_def memory_new_def mem_logs_def or_default_def)

lemma mem_reachable_ok: "mem_step\<^sup>*\<^sup>* memory_new g \<Longrightarrow> mem_ok g"
  by (induction rule: rtranclp_induct) (auto intro: mem_new_ok mem_step_ok)

text \<open>C15: The cursor search of the in-memory log is exact: in every reachable store, a scan returns the
  entries with an id after the cursor, oldest first, up to the limit, although it finds them by
  binary search.\<close>

theorem mem_scan_exact:
  assumes "mem_step\<^sup>*\<^sup>* memory_new g"
  shows "mem_scan g s n k after lim = take lim (filter (\<lambda>(i, v). after < i) (mem_logs g (s, n, k)))"
  by (rule mem_scan_filter) (rule mem_reachable_ok [OF assms])

theorem mem_scan_exact_witness:
  "mem_scan (snd (mem_append memory_new [1] [2] [3] [4])) [1] [2] [3] (-1) 5
     = take 5 (filter (\<lambda>(i, v). -1 < i) (mem_logs (snd (mem_append memory_new [1] [2] [3] [4])) ([1], [2], [3])))"
  by (rule mem_scan_exact) (rule r_into_rtranclp, rule mem_step.intros)

text \<open>C2: A FINALIZE flush is delivered exactly once, in order: whatever other operations change the
  store between turns, as long as nobody else writes under the flush's own key, the successive
  turns return the flushed rows one by one, none repeated and none skipped, and then the end.\<close>

theorem finalize_flush_drains:
  assumes "mem_step\<^sup>*\<^sup>* memory_new st" "mem_logs st (s, TIO_FINALIZE_NS, k) = []"
    and "start_flush mem_append st s k rows fname = (st', p)"
    and "\<forall>t \<in> set sts. mem_step\<^sup>*\<^sup>* memory_new t
           \<and> mem_logs t (s, TIO_FINALIZE_NS, k) = mem_logs st' (s, TIO_FINALIZE_NS, k)"
    and "length sts = Suc (length rows)"
  shows "turns mem_scan decode sts p = map (\<lambda>v. rbind (decode v) (\<lambda>b. Inr (Some b))) rows @ [Inr None]"
  using assms by (intro mem.flush_drains) (auto intro: mem_reachable_ok)

theorem finalize_flush_drains_witness:
  "turns mem_scan Inr (replicate 3 (fst (start_flush mem_append memory_new [1] [2] [[7], [8]] ''f'')))
     (snd (start_flush mem_append memory_new [1] [2] [[7], [8]] ''f''))
   = [Inr (Some [7]), Inr (Some [8]), Inr None]"
proof -
  let ?st = "fst (start_flush mem_append memory_new [1] [2] [[7], [8]] ''f'')"
  have "mem_step\<^sup>*\<^sup>* memory_new (snd (mem_append (snd (mem_append memory_new [1] TIO_FINALIZE_NS [2] [7]))
          [1] TIO_FINALIZE_NS [2] [8]))"
    by (meson mem_step.intros(3) r_into_rtranclp rtranclp.rtrancl_into_rtrancl)
  moreover have "snd (mem_append (snd (mem_append memory_new [1] TIO_FINALIZE_NS [2] [7]))
          [1] TIO_FINALIZE_NS [2] [8]) = ?st"
    by (simp add: start_flush_def Let_def case_prod_beta)
  ultimately have st: "mem_step\<^sup>*\<^sup>* memory_new ?st" by (simp only:)
  have "turns mem_scan Inr (replicate 3 ?st) (snd (start_flush mem_append memory_new [1] [2] [[7], [8]] ''f''))
      = map (\<lambda>v. rbind (Inr v) (\<lambda>b. Inr (Some b))) [[7], [8]] @ [Inr None]"
    by (rule finalize_flush_drains [where st = memory_new and st' = ?st and s = "[1]" and k = "[2]" and fname = "''f''"])
       (use st in \<open>simp_all add: memory_new_def mem_logs_def or_default_def\<close>)
  then show ?thesis by simp
qed

text \<open>Whichever producer a FINALIZE gets, it hands out the batches in order and then the end.\<close>

lemma vec_turns_from:
  "n \<le> length bs \<Longrightarrow> vec_turns (Suc (length bs) - n) \<lparr>vp_batches = bs, vp_pos = n\<rparr>
     = map (\<lambda>b. Inr (Some b)) (drop n bs) @ [Inr None]"
proof (induction "length bs - n" arbitrary: n)
  case 0
  then show ?case by (simp add: vec_next_def)
next
  case (Suc k)
  then have "Suc (length bs) - n = Suc (Suc (length bs) - Suc n)" "n < length bs" by linarith+
  then show ?case using Suc.hyps(1) [of "Suc n"] Suc.hyps(2) by (simp add: vec_next_def Cons_nth_drop_Suc [symmetric])
qed

lemma encoded_rows:
  "collect_results (map encode bs) = Inr rows \<Longrightarrow> (\<And>b r. encode b = Inr r \<Longrightarrow> decode r = Inr b) \<Longrightarrow>
     length rows = length bs \<and> map decode rows = map Inr bs"
  by (induction bs arbitrary: rows) (auto simp: result_simps)

lemma finalize_init_delivers:
  assumes "mem_step\<^sup>*\<^sup>* memory_new st" "mem_logs st (s, TIO_FINALIZE_NS, k) = []"
    and "finalize_init mem_append encode exchange_blob http st s k batches fname = (Inr (Persisted p blob), st')"
    and "\<And>b r. encode b = Inr r \<Longrightarrow> decode r = Inr b"
    and "\<forall>t \<in> set sts. mem_step\<^sup>*\<^sup>* memory_new t
           \<and> mem_logs t (s, TIO_FINALIZE_NS, k) = mem_logs st' (s, TIO_FINALIZE_NS, k)"
    and "length sts = Suc (length batches)"
  shows "turns mem_scan decode sts p = map (\<lambda>b. Inr (Some b)) batches @ [Inr None]"
proof -
  obtain rows where rows: "collect_results (map encode batches) = Inr rows"
    and start: "start_flush mem_append st s k rows fname = (st', p)"
    using assms(3) by (auto simp: finalize_init_def Let_def result_simps split: if_splits sum.splits prod.splits)
  have dec: "length rows = length batches" "map decode rows = map Inr batches"
    using encoded_rows [OF rows assms(4)] by auto
  have "turns mem_scan decode sts p = map (\<lambda>v. rbind (decode v) (\<lambda>b. Inr (Some b))) rows @ [Inr None]"
    using assms(1,2,5,6) dec(1) start by (intro mem.flush_drains) (auto intro: mem_reachable_ok)
  also have "map (\<lambda>v. rbind (decode v) (\<lambda>b. Inr (Some b))) rows
      = map (\<lambda>x. rbind x (\<lambda>b. Inr (Some b))) (map decode rows)" by simp
  also have "\<dots> = map (\<lambda>b. Inr (Some b)) batches" unfolding dec(2) by simp
  finally show ?thesis .
qed

text \<open>C34: Clearing a scope removes every trace of it and touches no other scope: afterwards its keys,
  logs and queue are empty, and those of every other scope are what they were.\<close>

theorem mem_clear_isolates:
  assumes "mem_step\<^sup>*\<^sup>* memory_new g"
  shows "mem_kv_get (mem_clear g s) s' k = (if s' = s then None else mem_kv_get g s' k)
    \<and> mem_scan (mem_clear g s) s' n k after lim = (if s' = s then [] else mem_scan g s' n k after lim)
    \<and> fst (mem_queue_pop (mem_clear g s) s') = (if s' = s then None else fst (mem_queue_pop g s'))"
proof (intro conjI)
  have ok: "mem_ok g" by (rule mem_reachable_ok [OF assms])
  show "mem_kv_get (mem_clear g s) s' k = (if s' = s then None else mem_kv_get g s' k)"
    by (simp add: mem_kv_get_def mem_clear_def)
  show "mem_scan (mem_clear g s) s' n k after lim = (if s' = s then [] else mem_scan g s' n k after lim)"
    unfolding mem_scan_filter [OF mem_ok_clear [OF ok]] mem_scan_filter [OF ok] mem_logs_clear by simp
  show "fst (mem_queue_pop (mem_clear g s) s') = (if s' = s then None else fst (mem_queue_pop g s'))"
    by (auto simp: mem_queue_pop_def mem_clear_def split: option.splits list.splits)
qed

theorem mem_clear_isolates_witness:
  "mem_kv_get (mem_clear (mem_kv_put memory_new [1] [2] [3]) [1]) [4] [2]
     = mem_kv_get (mem_kv_put memory_new [1] [2] [3]) [4] [2]"
  using mem_clear_isolates [of "mem_kv_put memory_new [1] [2] [3]" "[1]" "[4]" "[2]"]
  by (simp add: r_into_rtranclp mem_step.intros)

end
