(* ===== verification/Window_Cache.thy ===== *)
theory Window_Cache
  imports VGI_Prelude
begin

text \<open>
  The window-partition cache of \<open>src/vgi/src/window_cache.rs\<close>: an LRU map bounded in entries and in
  accounted bytes, with a wrapping generation counter that invalidates fills which were under way
  when an execution was destroyed. Every operation runs under the cache's mutex, so each is one
  step of a state machine; \<open>prune\<close> takes the lock once for its snapshot and once per key.
\<close>

section \<open>State\<close>

type_synonym wkey = "bytes \<times> int"

text \<open>
  A decoded partition behind an \<open>Arc\<close>: the identity of the allocation, the bytes the source
  accounts for it, and its contents.
\<close>

record 'p window_partition =
  arc_ptr :: nat
  accounted_bytes :: nat
  contents :: 'p

record 'p window_inner =
  w_entries :: "(wkey \<times> 'p window_partition \<times> nat) list"
  w_order :: "wkey list"
  w_bytes :: nat
  w_generation :: "64 word"

record window_limits =
  max_bytes :: nat
  max_entries :: nat

definition window_new :: "'p window_inner" where
  "window_new = \<lparr>w_entries = [], w_order = [], w_bytes = 0, w_generation = 0\<rparr>"

definition usize_max :: nat where "usize_max = 2 ^ 64 - 1"

section \<open>Operations\<close>

definition w_lookup ::
    "'p window_inner \<Rightarrow> bytes \<Rightarrow> int \<Rightarrow> ('p window_partition option \<times> 64 word) \<times> 'p window_inner" where
  "w_lookup w exec partn =
     (let key = (exec, partn);
          entry = map_option fst (map_of (w_entries w) key)
      in ((entry, w_generation w),
          if entry \<noteq> None then w\<lparr>w_order := filter (\<lambda>k. k \<noteq> key) (w_order w) @ [key]\<rparr> else w))"

definition w_remove_key :: "wkey \<Rightarrow> 'p window_inner \<Rightarrow> 'p window_inner" where
  "w_remove_key key w =
     w\<lparr>w_bytes := (case map_of (w_entries w) key of None \<Rightarrow> w_bytes w | Some (_, b) \<Rightarrow> w_bytes w - b),
       w_entries := AList.delete key (w_entries w),
       w_order := filter (\<lambda>k. k \<noteq> key) (w_order w)\<rparr>"

text \<open>The eviction loop of \<open>insert_if_current\<close>, on the front of the order queue.\<close>

fun w_evict ::
    "window_limits \<Rightarrow> nat \<Rightarrow> wkey list \<Rightarrow> (wkey \<times> 'p window_partition \<times> nat) list \<Rightarrow> nat
       \<Rightarrow> wkey list \<times> (wkey \<times> 'p window_partition \<times> nat) list \<times> nat" where
  "w_evict lim need order es held =
     (if length es \<ge> max_entries lim \<or> need > max_bytes lim - held then
        (case order of
           [] \<Rightarrow> ([], es, held)
         | oldest # rest \<Rightarrow>
             w_evict lim need rest (AList.delete oldest es)
               (case map_of es oldest of None \<Rightarrow> held | Some (_, b) \<Rightarrow> held - b))
      else (order, es, held))"

declare w_evict.simps [simp del]

definition insert_if_current ::
    "window_limits \<Rightarrow> 'p window_inner \<Rightarrow> bytes \<Rightarrow> int \<Rightarrow> 'p window_partition \<Rightarrow> 64 word \<Rightarrow> 'p window_inner" where
  "insert_if_current lim w exec partn entry gen =
     (let need = min usize_max (accounted_bytes entry + length exec) in
      if gen \<noteq> w_generation w \<or> max_entries lim = 0 \<or> need > max_bytes lim then w
      else
        (let key = (exec, partn);
             w = w_remove_key key w;
             (order, es, held) = w_evict lim need (w_order w) (w_entries w) (w_bytes w)
         in w\<lparr>w_bytes := held + need, w_order := order @ [key], w_entries := hm_insert key (entry, need) es\<rparr>))"

definition w_remove :: "'p window_inner \<Rightarrow> bytes \<Rightarrow> int \<Rightarrow> 64 word \<times> 'p window_inner" where
  "w_remove w exec partn =
     (let w = w_remove_key (exec, partn) (w\<lparr>w_generation := w_generation w + 1\<rparr>)
      in (w_generation w, w))"

definition clear_execution :: "'p window_inner \<Rightarrow> bytes \<Rightarrow> 'p window_inner" where
  "clear_execution w exec =
     (let w = w\<lparr>w_generation := w_generation w + 1\<rparr>;
          ks = filter (\<lambda>(e, _). e = exec) (map fst (w_entries w))
      in fold w_remove_key ks w)"

text \<open>
  \<open>prune\<close>: the snapshot of keys with weak pointers, and what each dead key does once the lock is
  taken again. Other operations may run between the two.
\<close>

definition prune_snapshot :: "'p window_inner \<Rightarrow> (wkey \<times> nat) list" where
  "prune_snapshot w = map (\<lambda>(k, e, _). (k, arc_ptr e)) (w_entries w)"

definition prune_one :: "wkey \<times> nat \<Rightarrow> 'p window_inner \<Rightarrow> 'p window_inner" where
  "prune_one kp w =
     (case map_of (w_entries w) (fst kp) of
        Some (current, _) \<Rightarrow>
          if arc_ptr current = snd kp
          then w_remove_key (fst kp) (w\<lparr>w_generation := w_generation w + 1\<rparr>) else w
      | None \<Rightarrow> w)"

definition prune :: "(bytes \<Rightarrow> int \<Rightarrow> bool) \<Rightarrow> 'p window_inner \<Rightarrow> 'p window_inner" where
  "prune is_live w =
     fold prune_one (filter (\<lambda>((e, p), _). \<not> is_live e p) (prune_snapshot w)) w"

section \<open>Invariant\<close>

definition w_ok :: "window_limits \<Rightarrow> 'p window_inner \<Rightarrow> bool" where
  "w_ok lim w \<longleftrightarrow>
     hm_ok (w_entries w) \<and> distinct (w_order w) \<and> set (w_order w) = fst ` set (w_entries w)
     \<and> w_bytes w = total snd (w_entries w)
     \<and> length (w_entries w) \<le> max_entries lim \<and> w_bytes w \<le> max_bytes lim"

definition w_core :: "(wkey \<times> 'p window_partition \<times> nat) list \<Rightarrow> wkey list \<Rightarrow> nat \<Rightarrow> bool" where
  "w_core es order held \<longleftrightarrow>
     hm_ok es \<and> distinct order \<and> set order = fst ` set es \<and> held = total snd es"

lemma w_ok_core:
  "w_ok lim w \<longleftrightarrow> w_core (w_entries w) (w_order w) (w_bytes w)
     \<and> length (w_entries w) \<le> max_entries lim \<and> w_bytes w \<le> max_bytes lim"
  by (auto simp: w_ok_def w_core_def)

lemma w_core_delete:
  assumes "w_core es order held"
  shows "w_core (AList.delete k es) (filter (\<lambda>x. x \<noteq> k) order)
           (case map_of es k of None \<Rightarrow> held | Some (_, b) \<Rightarrow> held - b)"
proof (cases "map_of es k")
  case None
  then have "k \<notin> fst ` set es" by (simp add: map_of_eq_None_iff)
  moreover from this have "AList.delete k es = es" by simp
  moreover have "filter (\<lambda>x. x \<noteq> k) order = order"
    using assms calculation(1) by (auto simp: w_core_def filter_id_conv)
  ultimately show ?thesis using assms None by simp
next
  case (Some v)
  have "total snd es = snd v + total snd (AList.delete k es)"
    using assms Some by (intro total_delete) (auto simp: w_core_def)
  then show ?thesis using assms Some by (auto simp: w_core_def case_prod_beta)
qed

definition kept :: "(wkey \<times> 'p window_partition \<times> nat) list \<Rightarrow> wkey list
    \<Rightarrow> (wkey \<times> 'p window_partition \<times> nat) list" where
  "kept es order = filter (\<lambda>(k, _). k \<in> set order) es"

definition fits :: "window_limits \<Rightarrow> nat \<Rightarrow> (wkey \<times> 'p window_partition \<times> nat) list \<Rightarrow> bool" where
  "fits lim need es \<longleftrightarrow> length es < max_entries lim \<and> need + total snd es \<le> max_bytes lim"

lemma kept_all: "w_core es order held \<Longrightarrow> kept es order = es"
  by (force simp: kept_def w_core_def filter_id_conv)

lemma kept_delete: "a \<notin> set order \<Longrightarrow> kept (AList.delete a es) order = kept es order"
  by (auto simp: kept_def AList.delete_eq filter_filter intro!: filter_cong)

lemma w_evict_spec:
  assumes "w_core es order held" "held \<le> max_bytes lim" "need \<le> max_bytes lim" "0 < max_entries lim"
  shows "\<exists>n es' held'. w_evict lim need order es held = (drop n order, es', held')
    \<and> es' = kept es (drop n order) \<and> w_core es' (drop n order) held' \<and> fits lim need es'
    \<and> (n = 0 \<or> \<not> fits lim need (kept es (drop (n - 1) order)))"
  using assms
proof (induction order arbitrary: es held)
  case Nil
  then have "es = []" "held = 0" by (auto simp: w_core_def)
  with Nil show ?case by (auto simp: w_evict.simps kept_def fits_def)
next
  case (Cons a order)
  have fit: "fits lim need es \<longleftrightarrow> \<not> (length es \<ge> max_entries lim \<or> need > max_bytes lim - held)"
    using Cons.prems(1,2) by (auto simp: fits_def w_core_def)
  show ?case
  proof (cases "fits lim need es")
    case True
    with fit Cons.prems(1) show ?thesis
      by (intro exI [of _ 0]) (auto simp: w_evict.simps kept_all)
  next
    case False
    let ?held = "case map_of es a of None \<Rightarrow> held | Some (_, b) \<Rightarrow> held - b"
    have a: "a \<notin> set order" using Cons.prems(1) by (simp add: w_core_def)
    then have "filter (\<lambda>x. x \<noteq> a) (a # order) = order" by (auto simp: filter_id_conv)
    then have core: "w_core (AList.delete a es) order ?held"
      using w_core_delete [OF Cons.prems(1), of a] by simp
    have "?held \<le> max_bytes lim" using Cons.prems(2) by (auto split: option.split)
    then obtain n es' held' where *: "w_evict lim need order (AList.delete a es) ?held = (drop n order, es', held')"
      "es' = kept (AList.delete a es) (drop n order)" "w_core es' (drop n order) held'" "fits lim need es'"
      "n = 0 \<or> \<not> fits lim need (kept (AList.delete a es) (drop (n - 1) order))"
      using Cons.IH [OF core _ Cons.prems(3,4)] by blast
    have step: "w_evict lim need (a # order) es held = (drop (Suc n) (a # order), es', held')"
      using False fit *(1) by (subst w_evict.simps) simp
    have k: "kept (AList.delete a es) (drop m order) = kept es (drop m order)" for m
      using a by (intro kept_delete) (auto dest: in_set_dropD)
    have "\<not> fits lim need (kept es (drop n (a # order)))"
    proof (cases n)
      case 0
      then show ?thesis using False kept_all [OF Cons.prems(1)] by simp
    next
      case (Suc m)
      then show ?thesis using *(5) k [of m] by simp
    qed
    with step * k [of n] show ?thesis by (intro exI [of _ "Suc n"]) simp
  qed
qed

lemma w_ok_remove_key: "w_ok lim w \<Longrightarrow> w_ok lim (w_remove_key k w)"
proof -
  assume ok: "w_ok lim w"
  then have "w_core (w_entries (w_remove_key k w)) (w_order (w_remove_key k w)) (w_bytes (w_remove_key k w))"
    using w_core_delete [of "w_entries w" "w_order w" "w_bytes w" k]
    by (simp add: w_ok_core w_remove_key_def)
  moreover have "length (AList.delete k (w_entries w)) \<le> length (w_entries w)"
    by (simp add: AList.delete_eq)
  ultimately show ?thesis
    using ok by (auto simp: w_ok_core w_remove_key_def split: option.split)
qed

lemma w_ok_generation [simp]: "w_ok lim (w\<lparr>w_generation := g\<rparr>) \<longleftrightarrow> w_ok lim w"
  by (simp add: w_ok_def)

lemma w_ok_lookup: "w_ok lim w \<Longrightarrow> w_ok lim (snd (w_lookup w exec p))"
  by (auto simp: w_lookup_def Let_def w_ok_def dest!: map_of_SomeD intro: rev_image_eqI)

lemma w_ok_fold: "(\<And>x w. w_ok lim w \<Longrightarrow> w_ok lim (f x w)) \<Longrightarrow> w_ok lim w \<Longrightarrow> w_ok lim (fold f xs w)"
  by (induction xs arbitrary: w) simp_all

lemma w_ok_prune_one: "w_ok lim w \<Longrightarrow> w_ok lim (prune_one kp w)"
  by (auto simp: prune_one_def w_ok_remove_key split: option.split)

lemma insert_if_current_unfold:
  assumes "w_ok lim w" "gen = w_generation w" "0 < max_entries lim"
    and need: "need = min usize_max (accounted_bytes entry + length exec)" "need \<le> max_bytes lim"
  obtains n es where
    "insert_if_current lim w exec p entry gen =
       w\<lparr>w_bytes := total snd es + need,
         w_order := drop n (filter (\<lambda>k. k \<noteq> (exec, p)) (w_order w)) @ [(exec, p)],
         w_entries := hm_insert (exec, p) (entry, need) es\<rparr>"
    and "es = kept (w_entries w) (drop n (filter (\<lambda>k. k \<noteq> (exec, p)) (w_order w)))"
    and "w_core es (drop n (filter (\<lambda>k. k \<noteq> (exec, p)) (w_order w))) (total snd es)"
    and "fits lim need es" and "(exec, p) \<notin> fst ` set es"
    and "n = 0 \<or> \<not> fits lim need (kept (w_entries w) (drop (n - 1) (filter (\<lambda>k. k \<noteq> (exec, p)) (w_order w))))"
proof -
  let ?k = "(exec, p)" and ?w = "w_remove_key (exec, p) w"
  let ?o = "filter (\<lambda>k. k \<noteq> ?k) (w_order w)"
  have ok: "w_ok lim ?w" using assms(1) by (rule w_ok_remove_key)
  have o: "w_order ?w = ?o" and e: "w_entries ?w = AList.delete ?k (w_entries w)"
    by (simp_all add: w_remove_key_def)
  obtain n es held where ev: "w_evict lim need (w_order ?w) (w_entries ?w) (w_bytes ?w) = (drop n ?o, es, held)"
    and es: "es = kept (w_entries ?w) (drop n ?o)" and core: "w_core es (drop n ?o) held"
    and fit: "fits lim need es"
    and min: "n = 0 \<or> \<not> fits lim need (kept (w_entries ?w) (drop (n - 1) ?o))"
    using w_evict_spec [of "w_entries ?w" "w_order ?w" "w_bytes ?w" lim need] ok assms(3) need(2)
    unfolding w_ok_core o by blast
  have k: "kept (w_entries ?w) (drop m ?o) = kept (w_entries w) (drop m ?o)" for m
    unfolding e by (rule kept_delete) (auto dest: in_set_dropD)
  have held: "held = total snd es" using core by (simp add: w_core_def)
  have "insert_if_current lim w exec p entry gen =
      ?w\<lparr>w_bytes := held + need, w_order := drop n ?o @ [?k], w_entries := hm_insert ?k (entry, need) es\<rparr>"
    using assms(2,3) need(2) ev unfolding insert_if_current_def Let_def need(1) [symmetric] by simp
  also have "\<dots> = w\<lparr>w_bytes := total snd es + need, w_order := drop n ?o @ [?k],
      w_entries := hm_insert ?k (entry, need) es\<rparr>"
    by (simp add: w_remove_key_def held)
  finally have "insert_if_current lim w exec p entry gen = \<dots>" .
  moreover have "?k \<notin> fst ` set es"
    using core by (auto simp: w_core_def dest!: in_set_dropD)
  ultimately show thesis
    using that es [unfolded k] core [unfolded held] fit min [unfolded k] by blast
qed

lemma w_ok_insert:
  assumes "w_ok lim w"
  shows "w_ok lim (insert_if_current lim w exec p entry gen)"
proof (cases "gen \<noteq> w_generation w \<or> max_entries lim = 0
    \<or> min usize_max (accounted_bytes entry + length exec) > max_bytes lim")
  case True
  then have "insert_if_current lim w exec p entry gen = w" by (auto simp: insert_if_current_def Let_def)
  with assms show ?thesis by simp
next
  case False
  define need where "need = min usize_max (accounted_bytes entry + length exec)"
  have live: "gen = w_generation w" "0 < max_entries lim" "need \<le> max_bytes lim"
    using False unfolding need_def by auto
  obtain n es where *:
    "insert_if_current lim w exec p entry gen =
       w\<lparr>w_bytes := total snd es + need,
         w_order := drop n (filter (\<lambda>k. k \<noteq> (exec, p)) (w_order w)) @ [(exec, p)],
         w_entries := hm_insert (exec, p) (entry, need) es\<rparr>"
    "w_core es (drop n (filter (\<lambda>k. k \<noteq> (exec, p)) (w_order w))) (total snd es)"
    "fits lim need es" "(exec, p) \<notin> fst ` set es"
    by (rule insert_if_current_unfold [OF assms live(1,2) need_def live(3)])
  from *(4) have "AList.delete (exec, p) es = es" by simp
  then show ?thesis
    unfolding *(1) using *(2-4)
    by (auto simp: w_ok_def w_core_def fits_def hm_insert_def dest: in_set_dropD)
qed

section \<open>The state machine\<close>

inductive w_step :: "window_limits \<Rightarrow> 'p window_inner \<Rightarrow> 'p window_inner \<Rightarrow> bool" for lim where
  lookup: "w_step lim w (snd (w_lookup w exec p))"
| insert: "w_step lim w (insert_if_current lim w exec p entry gen)"
| remove: "w_step lim w (snd (w_remove w exec p))"
| clear: "w_step lim w (clear_execution w exec)"
| prune: "w_step lim w (prune_one kp w)"

lemma w_step_ok: "w_step lim w w' \<Longrightarrow> w_ok lim w \<Longrightarrow> w_ok lim w'"
proof (induction rule: w_step.induct)
  case (clear w exec)
  then show ?case by (auto simp: clear_execution_def Let_def intro!: w_ok_fold w_ok_remove_key)
qed (simp_all add: w_ok_lookup w_ok_insert w_remove_def Let_def w_ok_remove_key w_ok_prune_one)

lemma w_new_ok: "w_ok lim window_new"
  by (simp add: w_ok_def window_new_def)

text \<open>C13: The cache never exceeds its bounds: after any sequence of operations, interleaved in any order,
  it holds at most the configured number of entries and bytes, its byte counter is the sum of the
  entries' sizes (so no subtraction ever underflows), and its recency queue lists each cached key
  exactly once.\<close>

theorem window_cache_bounded:
  assumes "(w_step lim)\<^sup>*\<^sup>* window_new w"
  shows "w_ok lim w"
  using assms by (induction rule: rtranclp_induct) (auto intro: w_new_ok w_step_ok)

text \<open>Runs that count the steps which invalidate fills under way.\<close>

inductive w_run :: "window_limits \<Rightarrow> nat \<Rightarrow> 'p window_inner \<Rightarrow> 'p window_inner \<Rightarrow> bool" for lim where
  run_start: "w_run lim 0 w w"
| run_lookup: "w_run lim n w u \<Longrightarrow> w_run lim n w (snd (w_lookup u exec p))"
| run_insert: "w_run lim n w u \<Longrightarrow> w_run lim n w (insert_if_current lim u exec p entry gen)"
| run_remove: "w_run lim n w u \<Longrightarrow> w_run lim (Suc n) w (snd (w_remove u exec p))"
| run_clear: "w_run lim n w u \<Longrightarrow> w_run lim (Suc n) w (clear_execution u exec)"
| run_prune: "w_run lim n w u \<Longrightarrow> map_of (w_entries u) k = Some (cur, b) \<Longrightarrow>
    w_run lim (Suc n) w (prune_one (k, arc_ptr cur) u)"

lemma generation_remove_key [simp]: "w_generation (w_remove_key k w) = w_generation w"
  by (simp add: w_remove_key_def)

lemma generation_fold [simp]: "w_generation (fold w_remove_key ks w) = w_generation w"
  by (induction ks arbitrary: w) simp_all

lemma generation_insert [simp]: "w_generation (insert_if_current lim w exec p entry gen) = w_generation w"
  by (auto simp: insert_if_current_def Let_def split: prod.split)

lemma w_run_generation: "w_run lim n w w' \<Longrightarrow> w_generation w' = w_generation w + of_nat n"
proof (induction rule: w_run.induct)
  case (run_lookup n w u exec p)
  then show ?case by (simp add: w_lookup_def Let_def)
qed (simp_all add: w_remove_def clear_execution_def prune_one_def Let_def)

lemma word_of_nat_eq_0_iff_small: "0 < n \<Longrightarrow> n < 2 ^ 64 \<Longrightarrow> (of_nat n :: 64 word) \<noteq> 0"
  by (simp add: word_of_nat_eq_0_iff nat_dvd_not_less)

lemma map_of_filter_keys: "map_of (filter (\<lambda>(k, _). k \<in> A) m) k = (if k \<in> A then map_of m k else None)"
  by (induction m) auto

definition sample_limits :: window_limits where
  "sample_limits = \<lparr>max_bytes = 100, max_entries = 2\<rparr>"

definition sample_part :: "nat \<Rightarrow> nat window_partition" where
  "sample_part n = \<lparr>arc_ptr = n, accounted_bytes = 40, contents = n\<rparr>"

definition sample_window :: "nat window_inner" where
  "sample_window = insert_if_current sample_limits
     (insert_if_current sample_limits window_new [1] 0 (sample_part 1) 0) [1] 1 (sample_part 2) 0"

lemma sample_window_reach: "(w_step sample_limits)\<^sup>*\<^sup>* window_new sample_window"
  unfolding sample_window_def
  by (rule rtranclp.rtrancl_into_rtrancl [OF r_into_rtranclp]) (rule w_step.insert)+

lemma sample_window_ok: "w_ok sample_limits sample_window"
  by (simp add: sample_window_def w_ok_insert w_new_ok)

theorem window_cache_bounded_witness: "w_ok sample_limits sample_window"
  by (rule window_cache_bounded) (rule sample_window_reach)

text \<open>C16: Insertion evicts in least-recently-used order and no more than it must: the entries that remain
  are exactly those whose keys form a suffix of the recency queue, the new entry is the most recent
  and is found by the next lookup, everything fits, and had one entry less been evicted it would
  not have fitted.\<close>

theorem window_insert_lru:
  assumes "w_ok lim w" "gen = w_generation w" "0 < max_entries lim"
    and "need = min usize_max (accounted_bytes entry + length exec)" "need \<le> max_bytes lim"
    and "w' = insert_if_current lim w exec p entry gen"
    and "older = filter (\<lambda>k. k \<noteq> (exec, p)) (w_order w)"
  shows "\<exists>n. w_order w' = drop n older @ [(exec, p)]
    \<and> (\<forall>k. map_of (w_entries w') k =
         (if k = (exec, p) then Some (entry, need)
          else if k \<in> set (drop n older) then map_of (w_entries w) k else None))
    \<and> fst (fst (w_lookup w' exec p)) = Some entry
    \<and> fits lim need (kept (w_entries w) (drop n older))
    \<and> (n = 0 \<or> \<not> fits lim need (kept (w_entries w) (drop (n - 1) older)))"
proof -
  obtain n es where *:
    "w' = w\<lparr>w_bytes := total snd es + need, w_order := drop n older @ [(exec, p)],
         w_entries := hm_insert (exec, p) (entry, need) es\<rparr>"
    "es = kept (w_entries w) (drop n older)" "fits lim need es"
    "n = 0 \<or> \<not> fits lim need (kept (w_entries w) (drop (n - 1) older))"
    unfolding assms(6,7) by (rule insert_if_current_unfold [OF assms(1-5)])
  have "map_of es k = (if k \<in> set (drop n older) then map_of (w_entries w) k else None)" for k
    unfolding *(2) kept_def by (rule map_of_filter_keys)
  then show ?thesis
    using * by (intro exI [of _ n]) (simp add: w_lookup_def Let_def)
qed

text \<open>C32: A fill that was under way when the cache was invalidated is not retained: when at least one
  removal, clearing or pruning of an entry happened since the fill's lookup read the generation
  (fewer than two to the 64 of them, after which the counter repeats), inserting under that
  generation changes nothing.\<close>

theorem window_stale_fill_dropped:
  assumes "w_run lim n w w'" "0 < n" "n < 2 ^ 64"
    and "fst (w_lookup w exec p) = (e, gen)"
  shows "insert_if_current lim w' exec p entry gen = w'"
proof -
  have "w_generation w' = gen + of_nat n"
    using w_run_generation [OF assms(1)] assms(4) by (auto simp: w_lookup_def Let_def)
  then have "gen \<noteq> w_generation w'"
    using assms(2,3) by (simp add: word_of_nat_eq_0_iff_small)
  then show ?thesis by (simp add: insert_if_current_def)
qed

theorem window_insert_lru_witness:
  "\<exists>n. w_order (insert_if_current sample_limits sample_window [1] 2 (sample_part 3) 0)
        = drop n (filter (\<lambda>k. k \<noteq> ([1], 2)) (w_order sample_window)) @ [([1], 2)]
    \<and> (\<forall>k. map_of (w_entries (insert_if_current sample_limits sample_window [1] 2 (sample_part 3) 0)) k =
         (if k = ([1], 2) then Some (sample_part 3, 41)
          else if k \<in> set (drop n (filter (\<lambda>k. k \<noteq> ([1], 2)) (w_order sample_window)))
               then map_of (w_entries sample_window) k else None))
    \<and> fst (fst (w_lookup (insert_if_current sample_limits sample_window [1] 2 (sample_part 3) 0) [1] 2))
        = Some (sample_part 3)
    \<and> fits sample_limits 41 (kept (w_entries sample_window)
         (drop n (filter (\<lambda>k. k \<noteq> ([1], 2)) (w_order sample_window))))
    \<and> (n = 0 \<or> \<not> fits sample_limits 41 (kept (w_entries sample_window)
         (drop (n - 1) (filter (\<lambda>k. k \<noteq> ([1], 2)) (w_order sample_window)))))"
  by (rule window_insert_lru [OF sample_window_ok])
     (simp_all add: sample_window_def window_new_def sample_limits_def usize_max_def sample_part_def)

theorem window_stale_fill_dropped_witness:
  "insert_if_current sample_limits (snd (w_remove sample_window [1] 0)) [1] 0 (sample_part 9) 0
     = snd (w_remove sample_window [1] 0)"
  by (rule window_stale_fill_dropped [where n = 1 and w = sample_window and e = "Some (sample_part 1)"])
     (use w_run.run_remove [OF w_run.run_start, of sample_limits sample_window "[1]" 0] in
       \<open>simp_all add: w_lookup_def Let_def sample_window_def window_new_def insert_if_current_def
         sample_limits_def usize_max_def sample_part_def w_remove_key_def w_evict.simps hm_insert_def\<close>)

lemma prune_one_map:
  assumes "\<forall>c. map_of (w_entries w) k = Some c \<longrightarrow> arc_ptr (fst c) = q"
  shows "map_of (w_entries (prune_one (k, q) w)) x = (if x = k then None else map_of (w_entries w) x)"
  using assms
  by (cases "map_of (w_entries w) k") (auto simp: prune_one_def w_remove_key_def map_of_delete_eq)

lemma fold_prune_map:
  assumes "\<forall>(k, q) \<in> set ps. \<forall>c. map_of (w_entries w) k = Some c \<longrightarrow> arc_ptr (fst c) = q"
  shows "map_of (w_entries (fold prune_one ps w)) x
           = (if x \<in> fst ` set ps then None else map_of (w_entries w) x)"
  using assms
proof (induction ps arbitrary: w)
  case (Cons kq ps)
  obtain k q where kq: "kq = (k, q)" by fastforce
  have one: "map_of (w_entries (prune_one (k, q) w)) x = (if x = k then None else map_of (w_entries w) x)" for x
    using Cons.prems kq by (intro prune_one_map) auto
  have "map_of (w_entries (fold prune_one ps (prune_one (k, q) w))) x
      = (if x \<in> fst ` set ps then None else map_of (w_entries (prune_one (k, q) w)) x)"
    using Cons.prems unfolding kq by (intro Cons.IH) (fastforce simp: one split: if_splits)
  then show ?case unfolding kq by (simp add: one)
qed simp

text \<open>Pruning drops the dead partitions it saw and nothing else: of the entries present, exactly
  those whose execution storage no longer reports live are gone afterwards.\<close>

theorem window_prune_exact:
  assumes "w_ok lim w"
  shows "map_of (w_entries (prune is_live w)) (e, p)
           = (if is_live e p then map_of (w_entries w) (e, p) else None)"
proof -
  let ?ps = "filter (\<lambda>((e, p), _). \<not> is_live e p) (prune_snapshot w)"
  have hm: "hm_ok (w_entries w)" using assms by (simp add: w_ok_def)
  have "\<forall>(k, q) \<in> set ?ps. \<forall>c. map_of (w_entries w) k = Some c \<longrightarrow> arc_ptr (fst c) = q"
    by (auto simp: prune_snapshot_def map_of_eq_Some_iff [OF hm] dest: eq_key_imp_eq_value [OF hm])
  then have "map_of (w_entries (prune is_live w)) (e, p)
      = (if (e, p) \<in> fst ` set ?ps then None else map_of (w_entries w) (e, p))"
    unfolding prune_def by (rule fold_prune_map)
  moreover have "(e, p) \<in> fst ` set ?ps \<longleftrightarrow> \<not> is_live e p \<and> map_of (w_entries w) (e, p) \<noteq> None"
    unfolding map_of_eq_None_iff by (force simp: prune_snapshot_def)
  ultimately show ?thesis by auto
qed

theorem window_prune_exact_witness:
  "map_of (w_entries (prune (\<lambda>e p. p = 1) sample_window)) ([1], 0)
     = (if (0 :: int) = 1 then map_of (w_entries sample_window) ([1], 0) else None)"
  using window_prune_exact [OF sample_window_ok, of "\<lambda>e p. p = 1" "[1]" 0] by simp

end
