(* ===== verification/Cache_Control.thy ===== *)
theory Cache_Control
  imports VGI_Prelude
begin

text \<open>
  Cache-control metadata, \<open>src/vgi-protocol/src/cache_control.rs\<close>: what a worker says about the
  reuse of a result, its builders, and its rendering to and parsing from the string map that
  travels with a batch. The map is an association list with distinct keys.
\<close>

definition CACHE_TTL_KEY :: string where "CACHE_TTL_KEY = ''vgi.cache.ttl''"
definition CACHE_EXPIRES_KEY :: string where "CACHE_EXPIRES_KEY = ''vgi.cache.expires''"
definition CACHE_NO_STORE_KEY :: string where "CACHE_NO_STORE_KEY = ''vgi.cache.no_store''"
definition CACHE_SCOPE_KEY :: string where "CACHE_SCOPE_KEY = ''vgi.cache.scope''"
definition CACHE_ETAG_KEY :: string where "CACHE_ETAG_KEY = ''vgi.cache.etag''"
definition CACHE_LAST_MODIFIED_KEY :: string where "CACHE_LAST_MODIFIED_KEY = ''vgi.cache.last_modified''"
definition CACHE_REVALIDATABLE_KEY :: string where "CACHE_REVALIDATABLE_KEY = ''vgi.cache.revalidatable''"
definition CACHE_STALE_WHILE_REVALIDATE_KEY :: string where
  "CACHE_STALE_WHILE_REVALIDATE_KEY = ''vgi.cache.stale_while_revalidate''"
definition CACHE_STALE_IF_ERROR_KEY :: string where "CACHE_STALE_IF_ERROR_KEY = ''vgi.cache.stale_if_error''"
definition CACHE_NOT_MODIFIED_KEY :: string where "CACHE_NOT_MODIFIED_KEY = ''vgi.cache.not_modified''"
definition CACHE_PARTITION_SCOPE_KEY :: string where "CACHE_PARTITION_SCOPE_KEY = ''vgi.cache.partition_scope''"
definition CACHE_PER_VALUE_KEY :: string where "CACHE_PER_VALUE_KEY = ''vgi.cache.per_value''"
definition CACHE_SCOPE_CATALOG :: string where "CACHE_SCOPE_CATALOG = ''catalog''"
definition CACHE_SCOPE_TRANSACTION :: string where "CACHE_SCOPE_TRANSACTION = ''transaction''"

lemmas cache_keys = CACHE_TTL_KEY_def CACHE_EXPIRES_KEY_def CACHE_NO_STORE_KEY_def CACHE_SCOPE_KEY_def
  CACHE_ETAG_KEY_def CACHE_LAST_MODIFIED_KEY_def CACHE_REVALIDATABLE_KEY_def
  CACHE_STALE_WHILE_REVALIDATE_KEY_def CACHE_STALE_IF_ERROR_KEY_def CACHE_NOT_MODIFIED_KEY_def
  CACHE_PARTITION_SCOPE_KEY_def CACHE_PER_VALUE_KEY_def

record cache_control =
  cc_ttl_seconds :: "int option"
  cc_expires :: "string option"
  cc_scope :: string
  cc_no_store :: bool
  cc_etag :: "string option"
  cc_last_modified :: "string option"
  cc_revalidatable :: bool
  cc_stale_while_revalidate :: "int option"
  cc_stale_if_error :: "int option"
  cc_not_modified :: bool
  cc_partition_scope :: bool
  cc_per_value :: bool

definition cc_default :: cache_control where
  "cc_default =
     \<lparr>cc_ttl_seconds = None, cc_expires = None, cc_scope = CACHE_SCOPE_CATALOG, cc_no_store = False,
      cc_etag = None, cc_last_modified = None, cc_revalidatable = False, cc_stale_while_revalidate = None,
      cc_stale_if_error = None, cc_not_modified = False, cc_partition_scope = False, cc_per_value = False\<rparr>"

section \<open>Builders\<close>

definition cc_ttl :: "int \<Rightarrow> cache_control" where
  "cc_ttl seconds = cc_default\<lparr>cc_ttl_seconds := Some (max seconds 0)\<rparr>"

definition cc_no_store_new :: cache_control where
  "cc_no_store_new = cc_default\<lparr>cc_no_store := True\<rparr>"

definition with_transaction_scope :: "cache_control \<Rightarrow> cache_control" where
  "with_transaction_scope c = c\<lparr>cc_scope := CACHE_SCOPE_TRANSACTION\<rparr>"

definition with_etag :: "string \<Rightarrow> cache_control \<Rightarrow> cache_control" where
  "with_etag e c = c\<lparr>cc_etag := Some e\<rparr>"

definition with_last_modified :: "string \<Rightarrow> cache_control \<Rightarrow> cache_control" where
  "with_last_modified l c = c\<lparr>cc_last_modified := Some l\<rparr>"

definition with_revalidatable :: "cache_control \<Rightarrow> cache_control" where
  "with_revalidatable c = c\<lparr>cc_revalidatable := True\<rparr>"

definition with_expires :: "string \<Rightarrow> cache_control \<Rightarrow> cache_control" where
  "with_expires e c = c\<lparr>cc_expires := Some e\<rparr>"

definition with_stale_while_revalidate :: "int \<Rightarrow> cache_control \<Rightarrow> cache_control" where
  "with_stale_while_revalidate s c = c\<lparr>cc_stale_while_revalidate := Some (max s 0)\<rparr>"

definition with_stale_if_error :: "int \<Rightarrow> cache_control \<Rightarrow> cache_control" where
  "with_stale_if_error s c = c\<lparr>cc_stale_if_error := Some (max s 0)\<rparr>"

definition with_not_modified :: "cache_control \<Rightarrow> cache_control" where
  "with_not_modified c = c\<lparr>cc_not_modified := True\<rparr>"

definition with_partition_scope :: "cache_control \<Rightarrow> cache_control" where
  "with_partition_scope c = c\<lparr>cc_partition_scope := True\<rparr>"

definition with_per_value :: "cache_control \<Rightarrow> cache_control" where
  "with_per_value c = c\<lparr>cc_per_value := True\<rparr>"

section \<open>Metadata\<close>

type_synonym cc_metadata = "(string \<times> string) list"

definition md_flag :: "cc_metadata \<Rightarrow> string \<Rightarrow> bool" where
  "md_flag md key =
     (case map_of md key of
        None \<Rightarrow> False
      | Some v \<Rightarrow> v = ''1'' \<or> v = ''true'' \<or> v = ''True'')"

definition md_int :: "cc_metadata \<Rightarrow> string \<Rightarrow> int option" where
  "md_int md key = Option.bind (map_of md key) parse_i64"

definition md_text :: "cc_metadata \<Rightarrow> string \<Rightarrow> string option" where
  "md_text md key = (case map_of md key of None \<Rightarrow> None | Some v \<Rightarrow> if v = [] then None else Some v)"

definition from_metadata :: "cc_metadata \<Rightarrow> cache_control option" where
  "from_metadata md =
     (if \<not> list_ex (\<lambda>(k, _). starts_with ''vgi.cache.'' k) md then None
      else Some
        \<lparr>cc_ttl_seconds = map_option (\<lambda>v. max v 0) (md_int md CACHE_TTL_KEY),
         cc_expires = md_text md CACHE_EXPIRES_KEY,
         cc_scope = (case md_text md CACHE_SCOPE_KEY of None \<Rightarrow> CACHE_SCOPE_CATALOG | Some v \<Rightarrow> v),
         cc_no_store = md_flag md CACHE_NO_STORE_KEY,
         cc_etag = md_text md CACHE_ETAG_KEY,
         cc_last_modified = md_text md CACHE_LAST_MODIFIED_KEY,
         cc_revalidatable = md_flag md CACHE_REVALIDATABLE_KEY,
         cc_stale_while_revalidate = md_int md CACHE_STALE_WHILE_REVALIDATE_KEY,
         cc_stale_if_error = md_int md CACHE_STALE_IF_ERROR_KEY,
         cc_not_modified = md_flag md CACHE_NOT_MODIFIED_KEY,
         cc_partition_scope = md_flag md CACHE_PARTITION_SCOPE_KEY,
         cc_per_value = md_flag md CACHE_PER_VALUE_KEY\<rparr>)"

definition is_cacheable :: "cache_control \<Rightarrow> bool" where
  "is_cacheable c \<longleftrightarrow> \<not> cc_no_store c \<and> (cc_ttl_seconds c \<noteq> None \<or> cc_expires c \<noteq> None)"

definition put_opt :: "string \<Rightarrow> string option \<Rightarrow> cc_metadata \<Rightarrow> cc_metadata" where
  "put_opt key v md = (case v of None \<Rightarrow> md | Some x \<Rightarrow> hm_insert key x md)"

definition put_flag :: "string \<Rightarrow> bool \<Rightarrow> cc_metadata \<Rightarrow> cc_metadata" where
  "put_flag key b md = (if b then hm_insert key ''1'' md else md)"

definition to_metadata :: "cache_control \<Rightarrow> cc_metadata" where
  "to_metadata c =
     (put_flag CACHE_PER_VALUE_KEY (cc_per_value c)
     (put_flag CACHE_PARTITION_SCOPE_KEY (cc_partition_scope c)
     (put_flag CACHE_NOT_MODIFIED_KEY (cc_not_modified c)
     (put_opt CACHE_STALE_IF_ERROR_KEY (map_option show_int (cc_stale_if_error c))
     (put_opt CACHE_STALE_WHILE_REVALIDATE_KEY (map_option show_int (cc_stale_while_revalidate c))
     (put_flag CACHE_REVALIDATABLE_KEY (cc_revalidatable c)
     (put_opt CACHE_LAST_MODIFIED_KEY (cc_last_modified c)
     (put_opt CACHE_ETAG_KEY (cc_etag c)
     (hm_insert CACHE_SCOPE_KEY (cc_scope c)
     (put_flag CACHE_NO_STORE_KEY (cc_no_store c)
     (put_opt CACHE_EXPIRES_KEY (cc_expires c)
     (put_opt CACHE_TTL_KEY (map_option show_int (cc_ttl_seconds c)) []))))))))))))"

record conditional_request =
  if_none_match :: "string option"
  if_modified_since :: "string option"

definition is_conditional :: "conditional_request \<Rightarrow> bool" where
  "is_conditional r \<longleftrightarrow> if_none_match r \<noteq> None \<or> if_modified_since r \<noteq> None"

section \<open>Round trip\<close>

lemma map_of_put_opt:
  "map_of (put_opt k v md) x = (if x = k \<and> v \<noteq> None then v else map_of md x)"
  by (auto simp: put_opt_def split: option.splits)

lemma map_of_put_flag:
  "map_of (put_flag k b md) x = (if x = k \<and> b then Some ''1'' else map_of md x)"
  by (simp add: put_flag_def)

definition opt_i64 :: "int option \<Rightarrow> bool" where
  "opt_i64 v \<longleftrightarrow> (case v of None \<Rightarrow> True | Some i \<Rightarrow> i64_range i)"

text \<open>Control values the wire can carry: machine integers, a clamped lifetime, and no empty text.\<close>

definition cc_wire :: "cache_control \<Rightarrow> bool" where
  "cc_wire c \<longleftrightarrow>
     opt_i64 (cc_ttl_seconds c) \<and> opt_i64 (cc_stale_while_revalidate c) \<and> opt_i64 (cc_stale_if_error c)
     \<and> (case cc_ttl_seconds c of None \<Rightarrow> True | Some t \<Rightarrow> 0 \<le> t)
     \<and> cc_scope c \<noteq> [] \<and> cc_expires c \<noteq> Some [] \<and> cc_etag c \<noteq> Some [] \<and> cc_last_modified c \<noteq> Some []"

lemma md_int_show: "opt_i64 v \<Longrightarrow> Option.bind (map_option show_int v) parse_i64 = v"
  by (cases v) (simp_all add: opt_i64_def)

lemma to_metadata_keys: "list_ex (\<lambda>(k, _). starts_with ''vgi.cache.'' k) (to_metadata c)"
proof -
  have "map_of (to_metadata c) CACHE_SCOPE_KEY = Some (cc_scope c)"
    by (simp add: to_metadata_def map_of_put_opt map_of_put_flag cache_keys)
  then have "(CACHE_SCOPE_KEY, cc_scope c) \<in> set (to_metadata c)" by (rule map_of_SomeD)
  moreover have "starts_with ''vgi.cache.'' CACHE_SCOPE_KEY"
    by (simp add: starts_with_def CACHE_SCOPE_KEY_def)
  ultimately show ?thesis by (force simp: list_ex_iff)
qed

lemma to_metadata_lookup:
  "map_of (to_metadata c) CACHE_TTL_KEY = map_option show_int (cc_ttl_seconds c)"
  "map_of (to_metadata c) CACHE_EXPIRES_KEY = cc_expires c"
  "map_of (to_metadata c) CACHE_NO_STORE_KEY = (if cc_no_store c then Some ''1'' else None)"
  "map_of (to_metadata c) CACHE_SCOPE_KEY = Some (cc_scope c)"
  "map_of (to_metadata c) CACHE_ETAG_KEY = cc_etag c"
  "map_of (to_metadata c) CACHE_LAST_MODIFIED_KEY = cc_last_modified c"
  "map_of (to_metadata c) CACHE_REVALIDATABLE_KEY = (if cc_revalidatable c then Some ''1'' else None)"
  "map_of (to_metadata c) CACHE_STALE_WHILE_REVALIDATE_KEY = map_option show_int (cc_stale_while_revalidate c)"
  "map_of (to_metadata c) CACHE_STALE_IF_ERROR_KEY = map_option show_int (cc_stale_if_error c)"
  "map_of (to_metadata c) CACHE_NOT_MODIFIED_KEY = (if cc_not_modified c then Some ''1'' else None)"
  "map_of (to_metadata c) CACHE_PARTITION_SCOPE_KEY = (if cc_partition_scope c then Some ''1'' else None)"
  "map_of (to_metadata c) CACHE_PER_VALUE_KEY = (if cc_per_value c then Some ''1'' else None)"
  unfolding to_metadata_def map_of_put_opt map_of_put_flag map_of_hm_insert
  by (simp_all add: cache_keys)

text \<open>C35: Cache control survives the wire: parsing the metadata a control value renders to gives that
  value back, for every value with machine integers, a non-negative lifetime and no empty text
  (which is every value the builders can produce from such arguments).\<close>

theorem cache_control_roundtrip:
  assumes "cc_wire c"
  shows "from_metadata (to_metadata c) = Some c"
proof -
  have t: "md_text (to_metadata c) k = v" if "map_of (to_metadata c) k = v" "v \<noteq> Some []" for k v
    using that by (auto simp: md_text_def split: option.split)
  have ttl: "map_option (\<lambda>v. max v 0) (cc_ttl_seconds c) = cc_ttl_seconds c"
    using assms by (cases "cc_ttl_seconds c") (simp_all add: cc_wire_def)
  show ?thesis
    using assms ttl to_metadata_keys [of c]
    by (simp add: from_metadata_def cc_wire_def md_int_def md_flag_def to_metadata_lookup md_int_show t)
qed

theorem cache_control_roundtrip_witness:
  "from_metadata (to_metadata (with_etag ''v1'' (with_stale_if_error 30 (cc_ttl 60))))
     = Some (with_etag ''v1'' (with_stale_if_error 30 (cc_ttl 60)))"
  by (rule cache_control_roundtrip)
     (simp add: cc_wire_def opt_i64_def with_etag_def with_stale_if_error_def cc_ttl_def cc_default_def
      CACHE_SCOPE_CATALOG_def i64_range_def)

end
