(* ===== verification/Prefix_Code.thy ===== *)
theory Prefix_Code
  imports VGI_Prelude
begin

text \<open>
  Self-delimiting byte encodings: the interface every length-prefixed or fixed-width field of a
  hashed or persisted key satisfies, with its closure under options and sequences.
\<close>

text \<open>A code whose encodings can be told apart with anything behind them.\<close>

locale prefix_code =
  fixes enc :: "'a \<Rightarrow> bytes" and ok :: "'a \<Rightarrow> bool"
  assumes prefix: "ok x \<Longrightarrow> ok y \<Longrightarrow> enc x @ r = enc y @ s \<Longrightarrow> x = y \<and> r = s"
begin

lemma peel: "ok x \<Longrightarrow> ok y \<Longrightarrow> enc x @ r = enc y @ s \<longleftrightarrow> x = y \<and> r = s"
  using prefix by blast

lemma inject: "ok x \<Longrightarrow> ok y \<Longrightarrow> enc x = enc y \<longleftrightarrow> x = y"
  using peel [of x y "[]" "[]"] by simp

lemma optional:
  assumes "pred_option ok x" "pred_option ok y"
    "(case x of None \<Rightarrow> [0] | Some v \<Rightarrow> 1 # enc v) @ r = (case y of None \<Rightarrow> [0] | Some v \<Rightarrow> 1 # enc v) @ s"
  shows "x = y \<and> r = s"
  using assms by (cases x; cases y) (auto dest: prefix)

lemma sequence:
  assumes "list_all ok xs" "list_all ok ys" "length xs = length ys"
    "concat (map enc xs) @ r = concat (map enc ys) @ s"
  shows "xs = ys \<and> r = s"
  using assms(3,1,2,4)
proof (induction xs ys rule: list_induct2)
  case (Cons x xs y ys)
  then have "x = y \<and> concat (map enc xs) @ r = concat (map enc ys) @ s"
    using prefix [of x y "concat (map enc xs) @ r" "concat (map enc ys) @ s"] by simp
  with Cons show ?case by simp
qed simp

end

definition len_ok :: "'a list \<Rightarrow> bool" where
  "len_ok v \<longleftrightarrow> length v < 2 ^ 64"

lemma le_bytes_peel:
  assumes "m < 2 ^ 64" "n < 2 ^ 64" "le_bytes 8 m @ r = le_bytes 8 n @ s"
  shows "m = n \<and> r = s"
proof -
  have "le_bytes 8 m = le_bytes 8 n \<and> r = s"
    using assms(3) append_eq_append_conv [of "le_bytes 8 m" "le_bytes 8 n" r s] by simp
  moreover have "m < 256 ^ 8" "n < 256 ^ 8" using assms(1,2) by simp_all
  ultimately show ?thesis using le_bytes_inject [of m 8 n] by blast
qed

interpretation i64_code: prefix_code i64_le_bytes i64_range
proof unfold_locales
  fix x y r s assume x: "i64_range x" "i64_range y" and e: "i64_le_bytes x @ r = i64_le_bytes y @ s"
  have "length (i64_le_bytes x) = length (i64_le_bytes y)" by simp
  with e have b: "i64_le_bytes x = i64_le_bytes y" "r = s" by (metis append_eq_append_conv)+
  have "x = i64_of_le (i64_le_bytes x)" by (rule i64_of_le_roundtrip [OF x(1), symmetric])
  also have "\<dots> = y" unfolding b(1) by (rule i64_of_le_roundtrip [OF x(2)])
  finally show "x = y \<and> r = s" using b(2) by blast
qed

end
