(* ===== verification/Result_Cache.thy ===== *)
theory Result_Cache
  imports Cache_Control Prefix_Code
begin

text \<open>
  The client's in-memory result cache, \<open>src/vgi-client/src/cache.rs\<close>: cache keys and their stable
  byte encoding, admission from the worker's cache control, freshness, and the LRU store with its
  counters. Each public operation holds the mutex, so it is one step on the state; instants and
  durations are nanoseconds. The RFC 3339 parser and the size of a batch are parameters.
\<close>

section \<open>Keys\<close>

record cache_key =
  ck_catalog :: string
  ck_identity_scope :: string
  ck_worker_label :: string
  ck_function :: string
  ck_arguments :: bytes
  ck_projection :: "int list option"
  ck_filters :: "bytes option"
  ck_catalog_version :: int
  ck_at :: "(string \<times> string) option"
  ck_settings :: bytes
  ck_attach_options :: bytes
  ck_row_limit :: "int option"
  ck_ordering :: "bytes option"
  ck_sample :: "bytes option"
  ck_plan :: "bytes option"

definition key_bytes :: "bytes \<Rightarrow> bytes" where
  "key_bytes v = le_bytes 8 (length v) @ v"

definition key_string :: "string \<Rightarrow> bytes" where
  "key_string v = key_bytes (as_bytes v)"

definition key_optional_bytes :: "bytes option \<Rightarrow> bytes" where
  "key_optional_bytes v = (case v of Some v \<Rightarrow> 1 # key_bytes v | None \<Rightarrow> [0])"

definition key_optional_i64 :: "int option \<Rightarrow> bytes" where
  "key_optional_i64 v = (case v of Some v \<Rightarrow> 1 # i64_le_bytes v | None \<Rightarrow> [0])"

definition key_projection :: "int list option \<Rightarrow> bytes" where
  "key_projection p =
     (case p of
        Some ps \<Rightarrow> 1 # le_bytes 8 (length ps) @ concat (map i64_le_bytes ps)
      | None \<Rightarrow> [0])"

definition key_at :: "(string \<times> string) option \<Rightarrow> bytes" where
  "key_at a = (case a of Some (u, v) \<Rightarrow> 1 # key_string u @ key_string v | None \<Rightarrow> [0])"

definition KEY_DOMAIN :: bytes where
  "KEY_DOMAIN = as_bytes ''vgi-client-result-cache-key'' @ [0] @ as_bytes ''v1''"

definition stable_bytes :: "cache_key \<Rightarrow> bytes" where
  "stable_bytes k =
     KEY_DOMAIN
     @ key_string (ck_catalog k) @ key_string (ck_identity_scope k) @ key_string (ck_worker_label k)
     @ key_string (ck_function k) @ key_bytes (ck_arguments k) @ key_projection (ck_projection k)
     @ key_optional_bytes (ck_filters k) @ i64_le_bytes (ck_catalog_version k) @ key_at (ck_at k)
     @ key_bytes (ck_settings k) @ key_bytes (ck_attach_options k) @ key_optional_i64 (ck_row_limit k)
     @ key_optional_bytes (ck_ordering k) @ key_optional_bytes (ck_sample k) @ key_optional_bytes (ck_plan k)"

section \<open>Entries and limits\<close>

record 'b cached_entry =
  ce_batches :: "'b list"
  ce_num_substreams :: nat
  ce_rows :: nat
  ce_bytes :: nat
  ce_stored_at :: nat
  ce_ttl :: "nat option"
  ce_etag :: "string option"
  ce_last_modified :: "string option"
  ce_revalidatable :: bool
  ce_stale_while_revalidate :: nat
  ce_stale_if_error :: nat
  ce_hits :: nat

definition is_stale_at :: "'b cached_entry \<Rightarrow> nat \<Rightarrow> bool" where
  "is_stale_at e now = (case ce_ttl e of None \<Rightarrow> False | Some ttl \<Rightarrow> now - ce_stored_at e \<ge> ttl)"

definition stale_age_at :: "'b cached_entry \<Rightarrow> nat \<Rightarrow> nat option" where
  "stale_age_at e now =
     (case ce_ttl e of
        None \<Rightarrow> None
      | Some ttl \<Rightarrow> if now \<ge> ce_stored_at e + ttl then Some (now - (ce_stored_at e + ttl)) else None)"

definition may_serve_while_revalidate_at :: "'b cached_entry \<Rightarrow> nat \<Rightarrow> bool" where
  "may_serve_while_revalidate_at e now =
     (case stale_age_at e now of None \<Rightarrow> False | Some age \<Rightarrow> age \<le> ce_stale_while_revalidate e)"

definition may_serve_on_error_at :: "'b cached_entry \<Rightarrow> nat \<Rightarrow> bool" where
  "may_serve_on_error_at e now =
     (case stale_age_at e now of None \<Rightarrow> False | Some age \<Rightarrow> age \<le> ce_stale_if_error e)"

datatype ineligible =
    NotCacheable | NoFreshness | IdentityUnresolved | EntryTooLarge | TransactionScoped | UnsupportedScope

record cache_limits =
  cl_max_entry_bytes :: nat
  cl_max_total_bytes :: nat
  cl_max_entries :: nat
  cl_default_ttl :: nat

definition cache_limits_default :: cache_limits where
  "cache_limits_default =
     \<lparr>cl_max_entry_bytes = 64 * 1024 * 1024, cl_max_total_bytes = 256 * 1024 * 1024,
      cl_max_entries = 131072, cl_default_ttl = 0\<rparr>"

record cache_stats =
  cs_hits :: nat
  cs_misses :: nat
  cs_inserts :: nat
  cs_evictions_lru :: nat
  cs_evictions_ttl :: nat
  cs_refusals :: nat
  cs_stale_serves :: nat
  cs_revalidations :: nat
  cs_capture_aborts :: nat
  cs_entries :: nat
  cs_total_bytes :: nat

definition cache_stats_default :: cache_stats where
  "cache_stats_default =
     \<lparr>cs_hits = 0, cs_misses = 0, cs_inserts = 0, cs_evictions_lru = 0, cs_evictions_ttl = 0, cs_refusals = 0,
      cs_stale_serves = 0, cs_revalidations = 0, cs_capture_aborts = 0, cs_entries = 0, cs_total_bytes = 0\<rparr>"

record 'b slot =
  slot_entry :: "'b cached_entry"
  slot_last_used :: nat

record 'b result_cache =
  rc_limits :: cache_limits
  rc_map :: "(cache_key \<times> 'b slot) list"
  rc_stats :: cache_stats
  rc_tick :: nat

definition result_cache_new :: "cache_limits \<Rightarrow> 'b result_cache" where
  "result_cache_new limits =
     \<lparr>rc_limits = limits, rc_map = [], rc_stats = cache_stats_default, rc_tick = 0\<rparr>"

section \<open>Admission\<close>

definition secs :: "nat \<Rightarrow> nat" where "secs s = s * 1000000000"

definition has_validator :: "cache_control \<Rightarrow> bool" where
  "has_validator cc \<longleftrightarrow> cc_etag cc \<noteq> None \<or> cc_last_modified cc \<noteq> None"

text \<open>Wall-clock times are nanoseconds since the epoch; the parser gives such a time or fails.\<close>

definition freshness_lifetime_at ::
    "(string \<Rightarrow> int option) \<Rightarrow> cache_limits \<Rightarrow> cache_control \<Rightarrow> int \<Rightarrow> ineligible + nat" where
  "freshness_lifetime_at parse_rfc3339 limits cc received_at =
     rbind
       (if cc_ttl_seconds cc \<noteq> None \<and> the (cc_ttl_seconds cc) > 0 then
          Inr (secs (nat (the (cc_ttl_seconds cc))))
        else if cc_ttl_seconds cc = Some 0 \<and> cc_revalidatable cc \<and> has_validator cc then Inr 0
        else if cc_ttl_seconds cc = Some 0 then Inl NoFreshness
        else
          (case cc_expires cc of
             Some txt \<Rightarrow>
               (case parse_rfc3339 txt of
                  None \<Rightarrow> Inl NoFreshness
                | Some expires \<Rightarrow> Inr (if expires - received_at < 0 then 0 else nat (expires - received_at)))
           | None \<Rightarrow> if cl_default_ttl limits = 0 then Inl NoFreshness else Inr (cl_default_ttl limits)))
       (\<lambda>ttl. if ttl = 0 \<and> \<not> (cc_revalidatable cc \<and> has_validator cc) then Inl NoFreshness else Inr ttl)"

definition admission :: "cache_control option \<Rightarrow> string option \<Rightarrow> ineligible + cache_control" where
  "admission control identity_scope =
     (if identity_scope = None then Inl IdentityUnresolved
      else
        (case control of
           None \<Rightarrow> Inl NotCacheable
         | Some cc \<Rightarrow>
             if cc_no_store cc then Inl NotCacheable
             else if cc_scope cc = CACHE_SCOPE_TRANSACTION then Inl TransactionScoped
             else if cc_scope cc \<noteq> CACHE_SCOPE_CATALOG then Inl UnsupportedScope
             else Inr cc))"

definition eligibility ::
    "(string \<Rightarrow> int option) \<Rightarrow> int \<Rightarrow> 'b result_cache \<Rightarrow> cache_control option \<Rightarrow> string option \<Rightarrow> nat
       \<Rightarrow> ineligible + nat" where
  "eligibility parse_rfc3339 system_now c control identity_scope nbytes =
     rbind (admission control identity_scope) (\<lambda>cc.
       if nbytes > cl_max_entry_bytes (rc_limits c) then Inl EntryTooLarge
       else freshness_lifetime_at parse_rfc3339 (rc_limits c) cc system_now)"

record cache_freshness =
  cf_expires_at :: int
  cf_received_at :: nat
  cf_lifetime :: nat

text \<open>\<open>SystemTime::checked_add\<close>: the largest representable wall time is a parameter.\<close>

definition freshness_at ::
    "(string \<Rightarrow> int option) \<Rightarrow> int \<Rightarrow> 'b result_cache \<Rightarrow> cache_control option \<Rightarrow> string option \<Rightarrow> int \<Rightarrow> nat
       \<Rightarrow> ineligible + cache_freshness" where
  "freshness_at parse_rfc3339 wall_max c control identity_scope received_wall received_monotonic =
     rbind (admission control identity_scope) (\<lambda>cc.
     rbind (freshness_lifetime_at parse_rfc3339 (rc_limits c) cc received_wall) (\<lambda>lifetime.
       if received_wall + int lifetime > wall_max then Inl NoFreshness
       else Inr \<lparr>cf_expires_at = received_wall + int lifetime, cf_received_at = received_monotonic,
                 cf_lifetime = lifetime\<rparr>))"

definition cf_remaining :: "cache_freshness \<Rightarrow> nat \<Rightarrow> nat" where
  "cf_remaining f now = cf_lifetime f - (now - cf_received_at f)"

definition cf_is_expired :: "cache_freshness \<Rightarrow> nat \<Rightarrow> bool" where
  "cf_is_expired f now \<longleftrightarrow> cf_remaining f now = 0"

definition is_immediately_stale :: "cache_freshness \<Rightarrow> bool" where
  "is_immediately_stale f \<longleftrightarrow> cf_lifetime f = 0"

section \<open>The store\<close>

definition rc_drop :: "cache_key \<Rightarrow> 'b result_cache \<Rightarrow> 'b result_cache" where
  "rc_drop k c =
     (case map_of (rc_map c) k of
        None \<Rightarrow> c
      | Some s \<Rightarrow>
          c\<lparr>rc_map := AList.delete k (rc_map c),
            rc_stats := (rc_stats c)\<lparr>cs_total_bytes := cs_total_bytes (rc_stats c) - ce_bytes (slot_entry s),
                                     cs_entries := cs_entries (rc_stats c) - 1\<rparr>\<rparr>)"

definition count_stat :: "(cache_stats \<Rightarrow> cache_stats) \<Rightarrow> 'b result_cache \<Rightarrow> 'b result_cache" where
  "count_stat f c = c\<lparr>rc_stats := f (rc_stats c)\<rparr>"

text \<open>\<open>Iterator::min_by_key\<close>: the first of the least elements.\<close>

fun min_by_key :: "('a \<Rightarrow> nat) \<Rightarrow> 'a list \<Rightarrow> 'a option" where
  "min_by_key f [] = None"
| "min_by_key f (x # xs) =
     (case min_by_key f xs of None \<Rightarrow> Some x | Some y \<Rightarrow> Some (if f x \<le> f y then x else y))"

definition rc_oversized :: "cache_limits \<Rightarrow> cache_key \<times> 'b slot \<Rightarrow> bool" where
  "rc_oversized limits ks \<longleftrightarrow> ce_bytes (slot_entry (snd ks)) > cl_max_entry_bytes limits"

definition over_caps :: "cache_limits \<Rightarrow> 'b result_cache \<Rightarrow> bool" where
  "over_caps limits c \<longleftrightarrow>
     list_ex (rc_oversized limits) (rc_map c)
     \<or> cs_entries (rc_stats c) > cl_max_entries limits
     \<or> cs_total_bytes (rc_stats c) > cl_max_total_bytes limits"

definition rc_victim :: "cache_limits \<Rightarrow> 'b result_cache \<Rightarrow> cache_key option" where
  "rc_victim limits c =
     map_option fst (min_by_key (\<lambda>ks. slot_last_used (snd ks))
       (filter (\<lambda>ks. \<not> list_ex (rc_oversized limits) (rc_map c) \<or> rc_oversized limits ks) (rc_map c)))"

lemma min_by_key_mem: "min_by_key f xs = Some x \<Longrightarrow> x \<in> set xs"
  by (induction xs arbitrary: x) (auto split: option.splits if_splits)

lemma rc_victim_mem: "rc_victim limits c = Some k \<Longrightarrow> k \<in> fst ` set (rc_map c)"
  by (auto simp: rc_victim_def dest!: min_by_key_mem intro: rev_image_eqI)

lemma rc_drop_shrinks: "k \<in> fst ` set (rc_map c) \<Longrightarrow> length (rc_map (rc_drop k c)) < length (rc_map c)"
proof -
  assume k: "k \<in> fst ` set (rc_map c)"
  then obtain s where "map_of (rc_map c) k = Some s" by (metis map_of_eq_None_iff not_None_eq)
  moreover have "length (AList.delete k (rc_map c)) < length (rc_map c)"
    using k by (auto simp: AList.delete_eq intro: length_filter_less)
  ultimately show ?thesis by (simp add: rc_drop_def)
qed

function enforce_caps :: "cache_limits \<Rightarrow> 'b result_cache \<Rightarrow> 'b result_cache" where
  "enforce_caps limits c =
     (if over_caps limits c then
        (case rc_victim limits c of
           None \<Rightarrow> c
         | Some k \<Rightarrow>
             enforce_caps limits
               (count_stat (\<lambda>s. s\<lparr>cs_evictions_lru := cs_evictions_lru s + 1\<rparr>) (rc_drop k c)))
      else c)"
  by pat_completeness auto
termination
  by (relation "measure (\<lambda>(l, c). length (rc_map c))")
     (auto simp: count_stat_def dest!: rc_victim_mem intro: rc_drop_shrinks)

declare enforce_caps.simps [simp del]

definition set_limits :: "cache_limits \<Rightarrow> 'b result_cache \<Rightarrow> nat \<times> 'b result_cache" where
  "set_limits limits c =
     (let before = cs_entries (rc_stats c);
          c = enforce_caps limits (c\<lparr>rc_limits := limits\<rparr>)
      in (before - cs_entries (rc_stats c), c))"

definition rc_get :: "nat \<Rightarrow> cache_key \<Rightarrow> 'b result_cache \<Rightarrow> 'b cached_entry option \<times> 'b result_cache" where
  "rc_get now key c =
     (let c = c\<lparr>rc_tick := rc_tick c + 1\<rparr>;
          miss = count_stat (\<lambda>s. s\<lparr>cs_misses := cs_misses s + 1\<rparr>)
      in case map_of (rc_map c) key of
           None \<Rightarrow> (None, miss c)
         | Some s \<Rightarrow>
             if is_stale_at (slot_entry s) now then
               (None, miss (if \<not> ce_revalidatable (slot_entry s)
                            then count_stat (\<lambda>s. s\<lparr>cs_evictions_ttl := cs_evictions_ttl s + 1\<rparr>) (rc_drop key c)
                            else c))
             else
               (let e = (slot_entry s)\<lparr>ce_hits := ce_hits (slot_entry s) + 1\<rparr>
                in (Some e,
                    count_stat (\<lambda>s. s\<lparr>cs_hits := cs_hits s + 1\<rparr>)
                      (c\<lparr>rc_map := hm_insert key \<lparr>slot_entry = e, slot_last_used = rc_tick c\<rparr> (rc_map c)\<rparr>))))"

definition get_for_revalidation :: "cache_key \<Rightarrow> 'b result_cache \<Rightarrow> 'b cached_entry option" where
  "get_for_revalidation key c =
     (case map_of (rc_map c) key of
        None \<Rightarrow> None
      | Some s \<Rightarrow> if ce_revalidatable (slot_entry s) then Some (slot_entry s) else None)"

definition grace :: "int option \<Rightarrow> nat" where
  "grace v = (case v of None \<Rightarrow> 0 | Some s \<Rightarrow> if s < 0 then 0 else secs (nat s))"

definition new_entry ::
    "('b \<Rightarrow> nat) \<Rightarrow> ('b \<Rightarrow> nat) \<Rightarrow> nat \<Rightarrow> 'b list \<Rightarrow> nat \<Rightarrow> nat \<Rightarrow> cache_control option \<Rightarrow> 'b cached_entry" where
  "new_entry rows_of bytes_of now batches num_substreams ttl control =
     \<lparr>ce_batches = batches,
      ce_num_substreams = max num_substreams 1,
      ce_rows = sum_list (map rows_of batches),
      ce_bytes = sum_list (map bytes_of batches),
      ce_stored_at = now,
      ce_ttl = (if ttl = 0 \<and> (case control of None \<Rightarrow> False | Some cc \<Rightarrow> cc_revalidatable cc)
                then Some 0 else Some ttl),
      ce_etag = Option.bind control cc_etag,
      ce_last_modified = Option.bind control cc_last_modified,
      ce_revalidatable = (case control of None \<Rightarrow> False | Some cc \<Rightarrow> cc_revalidatable cc),
      ce_stale_while_revalidate = grace (Option.bind control cc_stale_while_revalidate),
      ce_stale_if_error = grace (Option.bind control cc_stale_if_error),
      ce_hits = 0\<rparr>"

definition insert_with_substreams ::
    "('b \<Rightarrow> nat) \<Rightarrow> ('b \<Rightarrow> nat) \<Rightarrow> nat \<Rightarrow> cache_key \<Rightarrow> 'b list \<Rightarrow> nat \<Rightarrow> nat \<Rightarrow> cache_control option
       \<Rightarrow> 'b result_cache \<Rightarrow> 'b result_cache" where
  "insert_with_substreams rows_of bytes_of now key batches num_substreams ttl control c =
     (let entry = new_entry rows_of bytes_of now batches num_substreams ttl control;
          nbytes = sum_list (map bytes_of batches)
      in if nbytes > cl_max_entry_bytes (rc_limits c) then
           count_stat (\<lambda>s. s\<lparr>cs_refusals := cs_refusals s + 1\<rparr>) c
         else
           (let c = rc_drop key (c\<lparr>rc_tick := rc_tick c + 1\<rparr>);
                c = count_stat (\<lambda>s. s\<lparr>cs_total_bytes := cs_total_bytes s + nbytes,
                                      cs_entries := cs_entries s + 1, cs_inserts := cs_inserts s + 1\<rparr>) c;
                c = c\<lparr>rc_map := hm_insert key \<lparr>slot_entry = entry, slot_last_used = rc_tick c\<rparr> (rc_map c)\<rparr>
            in enforce_caps (rc_limits c) c))"

definition rc_insert ::
    "('b \<Rightarrow> nat) \<Rightarrow> ('b \<Rightarrow> nat) \<Rightarrow> nat \<Rightarrow> cache_key \<Rightarrow> 'b list \<Rightarrow> nat \<Rightarrow> cache_control option
       \<Rightarrow> 'b result_cache \<Rightarrow> 'b result_cache" where
  "rc_insert rows_of bytes_of now key batches ttl control =
     insert_with_substreams rows_of bytes_of now key batches 1 ttl control"

definition slide_entry :: "nat \<Rightarrow> nat \<Rightarrow> cache_control option \<Rightarrow> 'b cached_entry \<Rightarrow> 'b cached_entry" where
  "slide_entry now ttl control e =
     (let e = e\<lparr>ce_stored_at := now, ce_ttl := Some ttl\<rparr>
      in case control of
           None \<Rightarrow> e
         | Some cc \<Rightarrow>
             e\<lparr>ce_etag := cc_etag cc, ce_last_modified := cc_last_modified cc,
               ce_revalidatable := (cc_revalidatable cc \<and> has_validator cc),
               ce_stale_while_revalidate := grace (cc_stale_while_revalidate cc),
               ce_stale_if_error := grace (cc_stale_if_error cc)\<rparr>)"

definition slide_inner ::
    "nat \<Rightarrow> cache_key \<Rightarrow> nat \<Rightarrow> cache_control option \<Rightarrow> 'b result_cache \<Rightarrow> bool \<times> 'b result_cache" where
  "slide_inner now key ttl control c =
     (let c = c\<lparr>rc_tick := rc_tick c + 1\<rparr>
      in case map_of (rc_map c) key of
           None \<Rightarrow> (False, c)
         | Some s \<Rightarrow>
             (True, count_stat (\<lambda>s. s\<lparr>cs_revalidations := cs_revalidations s + 1\<rparr>)
                (c\<lparr>rc_map := hm_insert key
                     \<lparr>slot_entry = slide_entry now ttl control (slot_entry s), slot_last_used = rc_tick c\<rparr>
                     (rc_map c)\<rparr>)))"

definition rc_remove :: "cache_key \<Rightarrow> 'b result_cache \<Rightarrow> bool \<times> 'b result_cache" where
  "rc_remove key c = (map_of (rc_map c) key \<noteq> None, rc_drop key c)"

definition drop_where :: "(cache_key \<times> 'b slot \<Rightarrow> bool) \<Rightarrow> 'b result_cache \<Rightarrow> nat \<times> 'b result_cache" where
  "drop_where P c =
     (let doomed = map fst (filter P (rc_map c)) in (length doomed, fold rc_drop doomed c))"

definition flush_scope :: "string \<Rightarrow> 'b result_cache \<Rightarrow> nat \<times> 'b result_cache" where
  "flush_scope identity_scope c = drop_where (\<lambda>(k, _). ck_identity_scope k = identity_scope) c"

definition flush_catalog :: "string \<Rightarrow> 'b result_cache \<Rightarrow> nat \<times> 'b result_cache" where
  "flush_catalog cat c = drop_where (\<lambda>(k, _). ck_catalog k = cat) c"

definition flush_all :: "'b result_cache \<Rightarrow> nat \<times> 'b result_cache" where
  "flush_all c =
     (length (rc_map c),
      c\<lparr>rc_map := [], rc_stats := (rc_stats c)\<lparr>cs_entries := 0, cs_total_bytes := 0\<rparr>\<rparr>)"

definition rc_reap :: "nat \<Rightarrow> 'b result_cache \<Rightarrow> nat \<times> 'b result_cache" where
  "rc_reap now c =
     (let doomed = map fst (filter (\<lambda>(_, s). is_stale_at (slot_entry s) now
                                             \<and> \<not> ce_revalidatable (slot_entry s)) (rc_map c))
      in (length doomed,
          fold (\<lambda>k c. if map_of (rc_map c) k \<noteq> None
                      then count_stat (\<lambda>s. s\<lparr>cs_evictions_ttl := cs_evictions_ttl s + 1\<rparr>) (rc_drop k c)
                      else c) doomed c))"

definition record_capture_abort :: "'b result_cache \<Rightarrow> 'b result_cache" where
  "record_capture_abort c = count_stat (\<lambda>s. s\<lparr>cs_capture_aborts := cs_capture_aborts s + 1\<rparr>) c"

definition record_stale_serve :: "'b result_cache \<Rightarrow> 'b result_cache" where
  "record_stale_serve c = count_stat (\<lambda>s. s\<lparr>cs_stale_serves := cs_stale_serves s + 1\<rparr>) c"

section \<open>Accounting invariant\<close>

abbreviation slot_bytes :: "'b slot \<Rightarrow> nat" where
  "slot_bytes s \<equiv> ce_bytes (slot_entry s)"

definition rc_inv :: "'b result_cache \<Rightarrow> bool" where
  "rc_inv c \<longleftrightarrow>
     hm_ok (rc_map c) \<and> cs_entries (rc_stats c) = length (rc_map c)
     \<and> cs_total_bytes (rc_stats c) = total slot_bytes (rc_map c)
     \<and> (\<forall>k s. map_of (rc_map c) k = Some s \<longrightarrow> slot_last_used s \<le> rc_tick c)
     \<and> (\<forall>k k' s s'. map_of (rc_map c) k = Some s \<longrightarrow> map_of (rc_map c) k' = Some s' \<longrightarrow>
          slot_last_used s = slot_last_used s' \<longrightarrow> k = k')"

definition rc_ok :: "'b result_cache \<Rightarrow> bool" where
  "rc_ok c \<longleftrightarrow> rc_inv c \<and> \<not> over_caps (rc_limits c) c"

lemma rc_invD:
  assumes "rc_inv c"
  shows "hm_ok (rc_map c)" "length (rc_map c) = cs_entries (rc_stats c)"
    "total slot_bytes (rc_map c) = cs_total_bytes (rc_stats c)"
  using assms unfolding rc_inv_def by simp_all

lemma list_ex_snd: "list_ex (\<lambda>ks. P (snd ks)) m \<longleftrightarrow> (\<exists>k s. (k, s) \<in> set m \<and> P s)"
  unfolding list_ex_iff by (metis prod.collapse snd_conv)

lemma rc_oversized_fun: "rc_oversized l = (\<lambda>ks. slot_bytes (snd ks) > cl_max_entry_bytes l)"
  by (simp add: fun_eq_iff rc_oversized_def)

lemma over_caps_iff:
  assumes "rc_inv c"
  shows "over_caps l c \<longleftrightarrow>
    (\<exists>k s. map_of (rc_map c) k = Some s \<and> slot_bytes s > cl_max_entry_bytes l)
    \<or> length (rc_map c) > cl_max_entries l \<or> total slot_bytes (rc_map c) > cl_max_total_bytes l"
proof -
  have "hm_ok (rc_map c)" using assms by (simp add: rc_inv_def)
  then have "list_ex (rc_oversized l) (rc_map c)
      \<longleftrightarrow> (\<exists>k s. map_of (rc_map c) k = Some s \<and> slot_bytes s > cl_max_entry_bytes l)"
    unfolding rc_oversized_fun by (simp add: list_ex_snd [of "\<lambda>s. slot_bytes s > cl_max_entry_bytes l"] map_of_eq_Some_iff)
  then show ?thesis using assms by (simp add: over_caps_def rc_inv_def)
qed

lemma rc_drop_map: "map_of (rc_map (rc_drop k c)) x = (if x = k then None else map_of (rc_map c) x)"
  by (auto simp: rc_drop_def map_of_delete_eq split: option.split)

lemma rc_drop_fields [simp]:
  "rc_limits (rc_drop k c) = rc_limits c" "rc_tick (rc_drop k c) = rc_tick c"
  by (simp_all add: rc_drop_def split: option.split)

lemma count_stat_fields [simp]:
  "rc_limits (count_stat f c) = rc_limits c" "rc_tick (count_stat f c) = rc_tick c"
  "rc_map (count_stat f c) = rc_map c" "rc_stats (count_stat f c) = f (rc_stats c)"
  by (simp_all add: count_stat_def)

lemma rc_inv_count [simp]:
  "(\<And>s. cs_entries (f s) = cs_entries s \<and> cs_total_bytes (f s) = cs_total_bytes s) \<Longrightarrow>
     rc_inv (count_stat f c) \<longleftrightarrow> rc_inv c"
  by (simp add: rc_inv_def)

lemma rc_inv_drop:
  assumes "rc_inv c"
  shows "rc_inv (rc_drop k c)"
proof (cases "map_of (rc_map c) k")
  case None
  with assms show ?thesis by (simp add: rc_drop_def)
next
  case (Some s)
  have hm: "hm_ok (rc_map c)" using assms by (simp add: rc_inv_def)
  have "total slot_bytes (rc_map c) = slot_bytes s + total slot_bytes (AList.delete k (rc_map c))"
    "length (rc_map c) = Suc (length (AList.delete k (rc_map c)))"
    using total_delete [OF hm Some, of slot_bytes] length_delete [OF hm Some] by simp_all
  with assms Some show ?thesis by (simp add: rc_inv_def rc_drop_def map_of_delete_eq)
qed

lemma rc_victim_None: "rc_victim l c = None \<Longrightarrow> rc_map c = []"
proof -
  assume a: "rc_victim l c = None"
  have "min_by_key f xs = None \<Longrightarrow> xs = []" for f and xs :: "(cache_key \<times> 'a slot) list"
    by (cases xs) (auto split: option.splits)
  with a have "filter (\<lambda>ks. \<not> list_ex (rc_oversized l) (rc_map c) \<or> rc_oversized l ks) (rc_map c) = []"
    by (simp add: rc_victim_def)
  then have "\<forall>x \<in> set (rc_map c). list_ex (rc_oversized l) (rc_map c) \<and> \<not> rc_oversized l x"
    unfolding filter_empty_conv by simp
  then have "x \<notin> set (rc_map c)" for x unfolding list_ex_iff by metis
  then show ?thesis by (cases "rc_map c") auto
qed

lemma enforce_caps_inv:
  assumes "rc_inv c"
  shows "rc_inv (enforce_caps l c) \<and> \<not> over_caps l (enforce_caps l c)
    \<and> rc_limits (enforce_caps l c) = rc_limits c"
  using assms
proof (induction l c rule: enforce_caps.induct)
  case (1 l c)
  show ?case
  proof (cases "over_caps l c")
    case False
    with 1 show ?thesis by (simp add: enforce_caps.simps [of l c])
  next
    case True
    have "rc_map c \<noteq> []" using True over_caps_iff [OF 1(2), of l] by auto
    then obtain k where k: "rc_victim l c = Some k" using rc_victim_None by fastforce
    let ?c = "count_stat (\<lambda>s. s\<lparr>cs_evictions_lru := cs_evictions_lru s + 1\<rparr>) (rc_drop k c)"
    have "rc_inv ?c" using rc_inv_drop [OF 1(2)] by simp
    then show ?thesis
      using 1(1) [OF True k] True k by (simp add: enforce_caps.simps [of l c])
  qed
qed

lemma rc_inv_tick: "rc_inv c \<Longrightarrow> rc_inv (c\<lparr>rc_tick := rc_tick c + 1\<rparr>)"
  by (auto simp: rc_inv_def intro: le_SucI)

text \<open>Storing a slot stamped with a tick that no other slot carries.\<close>

lemma rc_inv_touch:
  assumes "rc_inv c" "map_of (rc_map c) k = Some s" "slot_bytes v = slot_bytes s"
    and "slot_last_used v = Suc (rc_tick c)"
  shows "rc_inv (c\<lparr>rc_tick := Suc (rc_tick c), rc_map := hm_insert k v (rc_map c)\<rparr>)"
proof -
  have hm: "hm_ok (rc_map c)" using assms(1) by (simp add: rc_inv_def)
  have "length (hm_insert k v (rc_map c)) = length (rc_map c)"
    "total slot_bytes (hm_insert k v (rc_map c)) = total slot_bytes (rc_map c)"
    using total_delete [OF hm assms(2), of slot_bytes] length_delete [OF hm assms(2)] assms(3)
    by (simp_all add: total_insert hm_insert_def)
  then show ?thesis using assms(1,4) by (fastforce simp: rc_inv_def le_Suc_eq split: if_splits)
qed

lemma rc_inv_add:
  assumes "rc_inv c" "map_of (rc_map c) k = None" "slot_last_used v = rc_tick c"
    and "\<forall>k s. map_of (rc_map c) k = Some s \<longrightarrow> slot_last_used s < rc_tick c"
  shows "rc_inv ((count_stat (\<lambda>s. s\<lparr>cs_total_bytes := cs_total_bytes s + slot_bytes v,
      cs_entries := cs_entries s + 1, cs_inserts := cs_inserts s + 1\<rparr>) c)\<lparr>rc_map := hm_insert k v (rc_map c)\<rparr>)"
proof -
  have "AList.delete k (rc_map c) = rc_map c" using assms(2) by (simp add: map_of_eq_None_iff)
  then have "length (hm_insert k v (rc_map c)) = Suc (length (rc_map c))"
    "total slot_bytes (hm_insert k v (rc_map c)) = total slot_bytes (rc_map c) + slot_bytes v"
    by (simp_all add: hm_insert_def)
  then show ?thesis using assms by (fastforce simp: rc_inv_def split: if_splits)
qed

lemma ce_bytes_slide [simp]: "ce_bytes (slide_entry now ttl control e) = ce_bytes e"
  by (simp add: slide_entry_def Let_def split: option.split)

lemma ce_bytes_new [simp]:
  "ce_bytes (new_entry rows_of bytes_of now batches n ttl control) = sum_list (map bytes_of batches)"
  by (simp add: new_entry_def)

lemma over_caps_drop: "rc_inv c \<Longrightarrow> \<not> over_caps l c \<Longrightarrow> \<not> over_caps l (rc_drop k c)"
proof -
  assume c: "rc_inv c" "\<not> over_caps l c"
  have "length (rc_map (rc_drop k c)) \<le> length (rc_map c)"
    "total slot_bytes (rc_map (rc_drop k c)) \<le> total slot_bytes (rc_map c)"
    using total_delete_le [of slot_bytes k "rc_map c"] length_filter_le [of _ "rc_map c"]
    by (simp_all add: rc_drop_def AList.delete_eq split: option.split)
  then show ?thesis
    using c unfolding over_caps_iff [OF c(1)] over_caps_iff [OF rc_inv_drop [OF c(1)]]
    by (auto simp: rc_drop_map)
qed

lemma over_caps_count [simp]:
  "(\<And>s. cs_entries (f s) = cs_entries s \<and> cs_total_bytes (f s) = cs_total_bytes s) \<Longrightarrow>
     over_caps l (count_stat f c) \<longleftrightarrow> over_caps l c"
  by (simp add: over_caps_def)

lemma rc_ok_count [simp]:
  "(\<And>s. cs_entries (f s) = cs_entries s \<and> cs_total_bytes (f s) = cs_total_bytes s) \<Longrightarrow>
     rc_ok (count_stat f c) \<longleftrightarrow> rc_ok c"
  by (simp add: rc_ok_def)

lemma rc_ok_drop: "rc_ok c \<Longrightarrow> rc_ok (rc_drop k c)"
  by (simp add: rc_ok_def rc_inv_drop over_caps_drop)

lemma rc_ok_tick: "rc_ok c \<Longrightarrow> rc_ok (c\<lparr>rc_tick := rc_tick c + 1\<rparr>)"
  using rc_inv_tick [of c] by (simp add: rc_ok_def over_caps_def)

lemma rc_ok_touch:
  assumes "rc_ok c" "map_of (rc_map c) k = Some s" "slot_bytes v = slot_bytes s"
    and "slot_last_used v = Suc (rc_tick c)"
  shows "rc_ok (c\<lparr>rc_tick := Suc (rc_tick c), rc_map := hm_insert k v (rc_map c)\<rparr>)" (is "rc_ok ?c")
proof -
  have inv: "rc_inv c" using assms(1) by (simp add: rc_ok_def)
  have caps: "\<not> over_caps (rc_limits c) c" using assms(1) by (simp add: rc_ok_def)
  note caps = caps [unfolded over_caps_iff [OF inv]]
  have inv': "rc_inv ?c" by (rule rc_inv_touch [OF inv assms(2-4)])
  have "length (rc_map ?c) = length (rc_map c)" "total slot_bytes (rc_map ?c) = total slot_bytes (rc_map c)"
    using rc_invD [OF inv] rc_invD [OF inv'] by simp_all
  moreover have "slot_bytes t \<le> cl_max_entry_bytes (rc_limits c)" if t: "map_of (rc_map ?c) x = Some t" for x t
  proof -
    have "slot_bytes t \<in> slot_bytes ` ran (map_of (rc_map c))"
      using t assms(2,3) by (cases "x = k") (auto intro: ranI rev_image_eqI)
    then obtain y u where "map_of (rc_map c) y = Some u" "slot_bytes t = slot_bytes u"
      by (auto simp: ran_def)
    then show ?thesis using caps by (metis linorder_not_less)
  qed
  ultimately have "\<not> over_caps (rc_limits c) ?c"
    unfolding over_caps_iff [OF inv'] using caps by (metis linorder_not_less)
  then show ?thesis using inv' by (simp add: rc_ok_def)
qed

lemma rc_ok_get:
  assumes "rc_ok c"
  shows "rc_ok (snd (rc_get now k c))"
proof (cases "map_of (rc_map c) k")
  case None
  then show ?thesis using rc_ok_tick [OF assms] by (simp add: rc_get_def Let_def)
next
  case (Some s)
  then show ?thesis
    using rc_ok_tick [OF assms] rc_ok_drop [OF rc_ok_tick [OF assms], of k]
      rc_ok_touch [OF assms Some]
    by (simp add: rc_get_def Let_def)
qed

lemma rc_ok_slide:
  assumes "rc_ok c"
  shows "rc_ok (snd (slide_inner now k ttl control c))"
  using rc_ok_tick [OF assms] rc_ok_touch [OF assms, of k]
  by (cases "map_of (rc_map c) k") (simp_all add: slide_inner_def Let_def)

lemma insert_with_substreams_shape:
  assumes "rc_inv c" "sum_list (map bytes_of batches) \<le> cl_max_entry_bytes (rc_limits c)"
  obtains d where
    "insert_with_substreams rows_of bytes_of now k batches n ttl control c = enforce_caps (rc_limits c) d"
    "rc_inv d" "rc_limits d = rc_limits c"
    "map_of (rc_map d) k =
       Some \<lparr>slot_entry = new_entry rows_of bytes_of now batches n ttl control, slot_last_used = Suc (rc_tick c)\<rparr>"
    "\<forall>x s. map_of (rc_map d) x = Some s \<longrightarrow> x \<noteq> k \<longrightarrow> slot_last_used s < Suc (rc_tick c)"
proof -
  define e where "e = new_entry rows_of bytes_of now batches n ttl control"
  define v where "v = \<lparr>slot_entry = e, slot_last_used = Suc (rc_tick c)\<rparr>"
  define d where "d = rc_drop k (c\<lparr>rc_tick := rc_tick c + 1\<rparr>)"
  define f where "f = (count_stat (\<lambda>s. s\<lparr>cs_total_bytes := cs_total_bytes s + slot_bytes v,
      cs_entries := cs_entries s + 1, cs_inserts := cs_inserts s + 1\<rparr>) d)\<lparr>rc_map := hm_insert k v (rc_map d)\<rparr>"
  have b: "slot_bytes v = sum_list (map bytes_of batches)" by (simp add: v_def e_def)
  have d: "rc_inv d" unfolding d_def by (intro rc_inv_drop rc_inv_tick assms(1))
  have none: "map_of (rc_map d) k = None" by (simp add: d_def rc_drop_map)
  have lt: "\<forall>k s. map_of (rc_map d) k = Some s \<longrightarrow> slot_last_used s < rc_tick d"
    using assms(1) by (fastforce simp: d_def rc_drop_map rc_inv_def le_imp_less_Suc split: if_splits)
  show thesis
  proof (rule that [of f])
    show "insert_with_substreams rows_of bytes_of now k batches n ttl control c = enforce_caps (rc_limits c) f"
      using assms(2) by (simp add: insert_with_substreams_def Let_def e_def v_def d_def f_def)
    show "rc_inv f" unfolding f_def by (rule rc_inv_add [OF d none _ lt]) (simp add: v_def d_def)
    show "rc_limits f = rc_limits c" by (simp add: f_def d_def)
    show "map_of (rc_map f) k =
       Some \<lparr>slot_entry = new_entry rows_of bytes_of now batches n ttl control, slot_last_used = Suc (rc_tick c)\<rparr>"
      by (simp add: f_def v_def e_def)
    show "\<forall>x s. map_of (rc_map f) x = Some s \<longrightarrow> x \<noteq> k \<longrightarrow> slot_last_used s < Suc (rc_tick c)"
      using lt by (simp add: f_def d_def)
  qed
qed

lemma rc_ok_insert:
  assumes "rc_ok c"
  shows "rc_ok (insert_with_substreams rows_of bytes_of now k batches n ttl control c)"
proof (cases "sum_list (map bytes_of batches) > cl_max_entry_bytes (rc_limits c)")
  case True
  with assms show ?thesis by (simp add: insert_with_substreams_def Let_def)
next
  case False
  then obtain d where "insert_with_substreams rows_of bytes_of now k batches n ttl control c = enforce_caps (rc_limits c) d"
    "rc_inv d" "rc_limits d = rc_limits c"
    using insert_with_substreams_shape [of c bytes_of batches] assms by (metis linorder_not_less rc_ok_def)
  then show ?thesis using enforce_caps_inv [of d "rc_limits c"] by (simp add: rc_ok_def)
qed

lemma enforce_caps_ok:
  assumes "rc_inv c" "rc_limits c = l"
  shows "rc_ok (enforce_caps l c)"
  using enforce_caps_inv [OF assms(1), of l] assms(2) by (simp add: rc_ok_def)

lemma rc_ok_set_limits:
  assumes "rc_ok c"
  shows "rc_ok (snd (set_limits l c))"
proof -
  have "rc_inv (c\<lparr>rc_limits := l\<rparr>)" using assms by (simp add: rc_ok_def rc_inv_def)
  then show ?thesis by (simp add: set_limits_def Let_def enforce_caps_ok)
qed

lemma rc_ok_fold_drop:
  assumes "\<And>k c. rc_ok c \<Longrightarrow> rc_ok (f k c)" "rc_ok c"
  shows "rc_ok (fold f ks c)"
  using assms by (induction ks arbitrary: c) auto

lemma rc_ok_drop_where: "rc_ok c \<Longrightarrow> rc_ok (snd (drop_where P c))"
  unfolding drop_where_def Let_def by (simp add: rc_ok_fold_drop rc_ok_drop)

lemma rc_ok_reap: "rc_ok c \<Longrightarrow> rc_ok (snd (rc_reap now c))"
  unfolding rc_reap_def Let_def snd_conv
  by (rule rc_ok_fold_drop) (simp_all add: rc_ok_drop)

lemma rc_ok_flush_all: "rc_ok c \<Longrightarrow> rc_ok (snd (flush_all c))"
  by (simp add: rc_ok_def rc_inv_def flush_all_def over_caps_def)

lemma rc_ok_new: "rc_ok (result_cache_new l)"
  by (simp add: rc_ok_def rc_inv_def result_cache_new_def cache_stats_default_def over_caps_def)

text \<open>The public operations as one step each; a trace is the order in which threads take the mutex.\<close>

datatype 'b rc_op =
    SetLimits cache_limits
  | Get nat cache_key
  | Insert nat cache_key "'b list" nat nat "cache_control option"
  | Slide nat cache_key nat "cache_control option"
  | Remove cache_key
  | FlushScope string
  | FlushCatalog string
  | FlushAll
  | Reap nat
  | RecordCaptureAbort
  | RecordStaleServe

fun rc_step :: "('b \<Rightarrow> nat) \<Rightarrow> ('b \<Rightarrow> nat) \<Rightarrow> 'b rc_op \<Rightarrow> 'b result_cache \<Rightarrow> 'b result_cache" where
  "rc_step r b (SetLimits l) c = snd (set_limits l c)"
| "rc_step r b (Get now k) c = snd (rc_get now k c)"
| "rc_step r b (Insert now k bs n ttl cc) c = insert_with_substreams r b now k bs n ttl cc c"
| "rc_step r b (Slide now k ttl cc) c = snd (slide_inner now k ttl cc c)"
| "rc_step r b (Remove k) c = snd (rc_remove k c)"
| "rc_step r b (FlushScope s) c = snd (flush_scope s c)"
| "rc_step r b (FlushCatalog s) c = snd (flush_catalog s c)"
| "rc_step r b FlushAll c = snd (flush_all c)"
| "rc_step r b (Reap now) c = snd (rc_reap now c)"
| "rc_step r b RecordCaptureAbort c = record_capture_abort c"
| "rc_step r b RecordStaleServe c = record_stale_serve c"

lemma rc_ok_step: "rc_ok c \<Longrightarrow> rc_ok (rc_step r b x c)"
  by (cases x)
     (simp_all add: rc_ok_set_limits rc_ok_get rc_ok_insert rc_ok_slide rc_remove_def rc_ok_drop flush_scope_def
       flush_catalog_def rc_ok_drop_where rc_ok_flush_all rc_ok_reap record_capture_abort_def record_stale_serve_def)

lemma rc_ok_run: "rc_ok c \<Longrightarrow> rc_ok (fold (rc_step r b) xs c)"
  by (induction xs arbitrary: c) (simp_all add: rc_ok_step)

text \<open>C3: After any sequence of operations, in the order the mutex admits them, the client's result
  cache accounts exactly for what it stores (the entry and byte counters equal the number and the
  total size of the stored entries) and holds no more entries, no more bytes in total and no larger
  single entry than the current limits allow, also when the limits were changed under way.\<close>
theorem result_cache_bounded:
  "let c = fold (rc_step rows_of bytes_of) xs (result_cache_new limits)
   in cs_entries (rc_stats c) = length (rc_map c)
    \<and> cs_total_bytes (rc_stats c) = sum_list (map (\<lambda>ks. ce_bytes (slot_entry (snd ks))) (rc_map c))
    \<and> length (rc_map c) \<le> cl_max_entries (rc_limits c)
    \<and> cs_total_bytes (rc_stats c) \<le> cl_max_total_bytes (rc_limits c)
    \<and> list_all (\<lambda>(_, s). ce_bytes (slot_entry s) \<le> cl_max_entry_bytes (rc_limits c)) (rc_map c)"
proof -
  define c where "c = fold (rc_step rows_of bytes_of) xs (result_cache_new limits)"
  have ok: "rc_ok c" unfolding c_def by (intro rc_ok_run rc_ok_new)
  then have inv: "rc_inv c" and caps: "\<not> over_caps (rc_limits c) c" by (simp_all add: rc_ok_def)
  have "list_all (\<lambda>(_, s). ce_bytes (slot_entry s) \<le> cl_max_entry_bytes (rc_limits c)) (rc_map c)"
    using caps by (auto simp: over_caps_def list_all_iff list_ex_iff rc_oversized_def linorder_not_less)
  then show ?thesis
    using rc_invD [OF inv] caps unfolding Let_def c_def [symmetric]
    by (simp add: over_caps_def total_def comp_def linorder_not_less)
qed

section \<open>Lookup after insertion\<close>

lemma min_by_key_least: "min_by_key f xs = Some x \<Longrightarrow> y \<in> set xs \<Longrightarrow> f x \<le> f y"
proof (induction xs arbitrary: x y)
  case (Cons a xs)
  show ?case
  proof (cases "min_by_key f xs")
    case None
    then have "xs = []" by (cases xs) (auto split: option.splits)
    with Cons show ?thesis by simp
  next
    case (Some z)
    then show ?thesis using Cons.IH [OF Some] Cons.prems
      by (cases "f a \<le> f z") (auto intro: order_trans less_imp_le)
  qed
qed simp

lemma rc_victim_cases:
  assumes "rc_victim l c = Some k"
  obtains s where "(k, s) \<in> set (rc_map c)"
    "list_ex (rc_oversized l) (rc_map c) \<longrightarrow> rc_oversized l (k, s)"
    "list_ex (rc_oversized l) (rc_map c) \<or> (\<forall>(x, t) \<in> set (rc_map c). slot_last_used s \<le> slot_last_used t)"
proof -
  let ?F = "filter (\<lambda>ks. \<not> list_ex (rc_oversized l) (rc_map c) \<or> rc_oversized l ks) (rc_map c)"
  obtain s where m: "min_by_key (\<lambda>ks. slot_last_used (snd ks)) ?F = Some (k, s)"
    using assms by (auto simp: rc_victim_def)
  have f: "(k, s) \<in> set ?F" using min_by_key_mem [OF m] .
  show thesis
  proof (rule that [of s])
    show "(k, s) \<in> set (rc_map c)" using f by simp
    show "list_ex (rc_oversized l) (rc_map c) \<longrightarrow> rc_oversized l (k, s)" using f by simp
    show "list_ex (rc_oversized l) (rc_map c) \<or> (\<forall>(x, t) \<in> set (rc_map c). slot_last_used s \<le> slot_last_used t)"
      using min_by_key_least [OF m] by (cases "list_ex (rc_oversized l) (rc_map c)") fastforce+
  qed
qed

lemma hm_singleton:
  assumes "hm_ok m" "map_of m k = Some v" "\<And>x t. (x, t) \<in> set m \<Longrightarrow> x = k"
  shows "m = [(k, v)]"
proof -
  obtain x t ys where m: "m = (x, t) # ys" using assms(2) by (cases m) auto
  have "ys = []"
  proof (rule ccontr)
    assume "ys \<noteq> []"
    then obtain y u zs where "ys = (y, u) # zs" by (cases ys) auto
    then have "x = k" "y = k" using assms(3) [of x t] assms(3) [of y u] m by auto
    then show False using assms(1) \<open>ys = (y, u) # zs\<close> m by simp
  qed
  moreover have "x = k" using assms(3) [of x t] m by simp
  ultimately show ?thesis using assms(2) m by simp
qed

lemma rc_victim_not_newest:
  assumes "rc_inv c" "over_caps l c" "rc_victim l c = Some x" "map_of (rc_map c) k = Some v"
    and newest: "\<forall>x s. map_of (rc_map c) x = Some s \<longrightarrow> x \<noteq> k \<longrightarrow> slot_last_used s < slot_last_used v"
    and fits: "slot_bytes v \<le> cl_max_entry_bytes l" "slot_bytes v \<le> cl_max_total_bytes l" "1 \<le> cl_max_entries l"
  shows "x \<noteq> k"
proof
  assume "x = k"
  have hm: "hm_ok (rc_map c)" by (rule rc_invD [OF assms(1)])
  obtain s where s: "(k, s) \<in> set (rc_map c)"
    "list_ex (rc_oversized l) (rc_map c) \<longrightarrow> rc_oversized l (k, s)"
    "list_ex (rc_oversized l) (rc_map c) \<or> (\<forall>(x, t) \<in> set (rc_map c). slot_last_used s \<le> slot_last_used t)"
    using rc_victim_cases [OF assms(3)] \<open>x = k\<close> by metis
  have [simp]: "s = v" using s(1) hm assms(4) by (simp add: map_of_eq_Some_iff)
  have no: "\<not> list_ex (rc_oversized l) (rc_map c)" using s(2) fits(1) by (auto simp: rc_oversized_def)
  have "y = k" if "(y, t) \<in> set (rc_map c)" for y t
  proof (rule ccontr)
    assume "y \<noteq> k"
    moreover have "map_of (rc_map c) y = Some t" using that hm by (simp add: map_of_eq_Some_iff)
    ultimately have "slot_last_used t < slot_last_used v" using newest by simp
    moreover have "slot_last_used v \<le> slot_last_used t" using s(3) no that by auto
    ultimately show False by simp
  qed
  then have "rc_map c = [(k, v)]" using hm_singleton [OF hm assms(4)] by blast
  then show False
    using assms(2) no fits rc_invD(2,3) [OF assms(1), symmetric] by (simp add: over_caps_def)
qed

lemma enforce_caps_keeps:
  assumes "rc_inv c" "map_of (rc_map c) k = Some v"
    and "\<forall>x s. map_of (rc_map c) x = Some s \<longrightarrow> x \<noteq> k \<longrightarrow> slot_last_used s < slot_last_used v"
    and "slot_bytes v \<le> cl_max_entry_bytes l" "slot_bytes v \<le> cl_max_total_bytes l" "1 \<le> cl_max_entries l"
  shows "map_of (rc_map (enforce_caps l c)) k = Some v"
  using assms
proof (induction l c rule: enforce_caps.induct)
  case (1 l c)
  show ?case
  proof (cases "over_caps l c")
    case False
    with 1 show ?thesis by (simp add: enforce_caps.simps [of l c])
  next
    case True
    show ?thesis
    proof (cases "rc_victim l c")
      case None
      then show ?thesis using rc_victim_None [OF None] 1(3) by simp
    next
      case (Some x)
      let ?c = "count_stat (\<lambda>s. s\<lparr>cs_evictions_lru := cs_evictions_lru s + 1\<rparr>) (rc_drop x c)"
      have "x \<noteq> k" by (rule rc_victim_not_newest [OF 1(2) True Some 1(3-7)])
      then have "map_of (rc_map (enforce_caps l ?c)) k = Some v"
        using 1(1) [OF True Some] 1(3-7) rc_inv_drop [OF 1(2)] by (simp add: rc_drop_map)
      then show ?thesis using True Some by (simp add: enforce_caps.simps [of l c])
    qed
  qed
qed

text \<open>C12: What was inserted is what a later lookup returns: in every reachable cache, a result whose
  size fits the limits is found under its key right after its insertion, with the same batches,
  for as long as its lifetime has not run out, whatever the insertion evicted; and once the lifetime
  has run out the lookup returns nothing.\<close>
theorem get_after_insert:
  assumes "c = fold (rc_step rows_of bytes_of) xs (result_cache_new limits)"
    and "sum_list (map bytes_of batches) \<le> cl_max_entry_bytes (rc_limits c)"
    and "sum_list (map bytes_of batches) \<le> cl_max_total_bytes (rc_limits c)"
    and "1 \<le> cl_max_entries (rc_limits c)"
  shows "map_option ce_batches (fst (rc_get (now + age) key (rc_insert rows_of bytes_of now key batches ttl control c)))
    = (if age < ttl then Some batches else None)"
proof -
  have "rc_ok c" unfolding assms(1) by (intro rc_ok_run rc_ok_new)
  then have inv: "rc_inv c" by (simp add: rc_ok_def)
  define v where "v = \<lparr>slot_entry = new_entry rows_of bytes_of now batches 1 ttl control, slot_last_used = Suc (rc_tick c)\<rparr>"
  have b: "slot_bytes v = sum_list (map bytes_of batches)" by (simp add: v_def)
  obtain d where d: "rc_insert rows_of bytes_of now key batches ttl control c = enforce_caps (rc_limits c) d"
    "rc_inv d" "map_of (rc_map d) key = Some v"
    "\<forall>x s. map_of (rc_map d) x = Some s \<longrightarrow> x \<noteq> key \<longrightarrow> slot_last_used s < slot_last_used v"
    unfolding rc_insert_def
    by (rule insert_with_substreams_shape [OF inv assms(2),
          where rows_of = rows_of and now = now and k = key and n = 1 and ttl = ttl and control = control])
       (auto simp: v_def)
  have "map_of (rc_map (enforce_caps (rc_limits c) d)) key = Some v"
    using enforce_caps_keeps [OF d(2-4)] assms(2-4) b by simp
  then show ?thesis
    unfolding d(1) by (simp add: rc_get_def Let_def v_def new_entry_def is_stale_at_def)
qed

definition sample_key :: cache_key where
  "sample_key = \<lparr>ck_catalog = ''c'', ck_identity_scope = ''alice'', ck_worker_label = ''w'', ck_function = ''f'',
     ck_arguments = [1], ck_projection = Some [0, 2], ck_filters = None, ck_catalog_version = 7, ck_at = None,
     ck_settings = [], ck_attach_options = [], ck_row_limit = Some 10, ck_ordering = None, ck_sample = None,
     ck_plan = None\<rparr>"

theorem get_after_insert_witness:
  "map_option ce_batches (fst (rc_get (5 + 2) sample_key (rc_insert (\<lambda>_. 1) id 5 sample_key [30, 40] 10 None
     (fold (rc_step (\<lambda>_. 1) id) [Get 1 sample_key] (result_cache_new cache_limits_default))))) = Some [30, 40 :: nat]"
  using get_after_insert [OF refl, where rows_of = "\<lambda>_. 1" and bytes_of = id and xs = "[Get 1 sample_key]"
      and limits = cache_limits_default and batches = "[30, 40]" and now = 5 and age = 2 and key = sample_key
      and ttl = 10 and control = None]
  by (simp add: rc_get_def Let_def result_cache_new_def cache_limits_default_def)

section \<open>Admission and flushing\<close>

text \<open>C33: Admission fails closed: a result is given a lifetime only when the worker sent cache control
  without no-store, the scope is the catalog scope, the caller's identity was resolved, and the
  result is no larger than an entry may be; and the lifetime it gets is positive unless the worker
  declared the result revalidatable and gave a validator to revalidate with.\<close>
theorem eligibility_fails_closed:
  assumes "eligibility parse_rfc3339 system_now c control identity_scope nbytes = Inr ttl"
  shows "identity_scope \<noteq> None
    \<and> (\<exists>cc. control = Some cc \<and> \<not> cc_no_store cc \<and> cc_scope cc = CACHE_SCOPE_CATALOG
        \<and> (ttl > 0 \<or> cc_revalidatable cc \<and> has_validator cc))
    \<and> nbytes \<le> cl_max_entry_bytes (rc_limits c)"
proof -
  obtain cc where a: "admission control identity_scope = Inr cc"
    and n: "\<not> nbytes > cl_max_entry_bytes (rc_limits c)"
    and f: "freshness_lifetime_at parse_rfc3339 (rc_limits c) cc system_now = Inr ttl"
    using assms unfolding eligibility_def by (auto simp: rbind_eq_Inr_iff split: if_splits)
  have "ttl > 0 \<or> cc_revalidatable cc \<and> has_validator cc"
    using f unfolding freshness_lifetime_at_def rbind_eq_Inr_iff by (auto split: if_splits)
  moreover have "identity_scope \<noteq> None \<and> control = Some cc \<and> \<not> cc_no_store cc \<and> cc_scope cc = CACHE_SCOPE_CATALOG"
    using a by (auto simp: admission_def split: if_splits option.splits)
  ultimately show ?thesis using n by simp
qed

theorem eligibility_fails_closed_witness:
  "Some ''alice'' \<noteq> None
    \<and> (\<exists>cc. Some (cc_ttl 60) = Some cc \<and> \<not> cc_no_store cc \<and> cc_scope cc = CACHE_SCOPE_CATALOG
        \<and> (secs 60 > 0 \<or> cc_revalidatable cc \<and> has_validator cc))
    \<and> 100 \<le> cl_max_entry_bytes (rc_limits (result_cache_new cache_limits_default :: nat result_cache))"
proof (rule eligibility_fails_closed)
  show "eligibility (\<lambda>_. None) 0 (result_cache_new cache_limits_default :: nat result_cache)
      (Some (cc_ttl 60)) (Some ''alice'') 100 = Inr (secs 60)"
    by (simp add: eligibility_def admission_def freshness_lifetime_at_def cc_ttl_def cc_default_def
        result_cache_new_def cache_limits_default_def secs_def CACHE_SCOPE_CATALOG_def CACHE_SCOPE_TRANSACTION_def)
qed

lemma fold_rc_drop_map:
  "map_of (rc_map (fold rc_drop ks c)) x = (if x \<in> set ks then None else map_of (rc_map c) x)"
  by (induction ks arbitrary: c) (auto simp: rc_drop_map)

lemma keys_filter: "x \<in> set (map fst (filter (\<lambda>(k, _). Q k) m)) \<longleftrightarrow> Q x \<and> map_of m x \<noteq> None"
  by (induction m) auto

text \<open>C36: Flushing an identity scope removes every entry of that identity and leaves every entry of
  every other identity exactly as it was; the number reported is the number of entries removed.\<close>
theorem flush_scope_isolates:
  "map_of (rc_map (snd (flush_scope s c))) k
     = (if ck_identity_scope k = s then None else map_of (rc_map c) k)
   \<and> fst (flush_scope s c) = length (filter (\<lambda>(k, _). ck_identity_scope k = s) (rc_map c))"
  using keys_filter [of k "\<lambda>k. ck_identity_scope k = s" "rc_map c"]
  by (cases "map_of (rc_map c) k") (simp_all add: flush_scope_def drop_where_def Let_def fold_rc_drop_map)

section \<open>Stable key encoding\<close>

interpretation bytes_code: prefix_code key_bytes len_ok
proof unfold_locales
  fix x y r s assume x: "len_ok x" "len_ok y" and e: "key_bytes x @ r = key_bytes y @ s"
  have "length x = length y \<and> x @ r = y @ s"
    by (rule le_bytes_peel) (use x e in \<open>simp_all only: len_ok_def key_bytes_def append_assoc\<close>)
  then show "x = y \<and> r = s" using append_eq_append_conv [of x y r s] by blast
qed

interpretation string_code: prefix_code key_string len_ok
proof unfold_locales
  fix x y r s assume x: "len_ok x" "len_ok y" and e: "key_string x @ r = key_string y @ s"
  have "as_bytes x = as_bytes y \<and> r = s"
    by (rule bytes_code.prefix) (use x e in \<open>simp_all add: len_ok_def key_string_def\<close>)
  then show "x = y \<and> r = s" by simp
qed

interpretation opt_bytes_code: prefix_code key_optional_bytes "pred_option len_ok"
proof unfold_locales
  fix x y r s
  assume "pred_option len_ok x" "pred_option len_ok y" "key_optional_bytes x @ r = key_optional_bytes y @ s"
  then show "x = y \<and> r = s" unfolding key_optional_bytes_def by (rule bytes_code.optional)
qed

interpretation opt_i64_code: prefix_code key_optional_i64 "pred_option i64_range"
proof unfold_locales
  fix x y r s
  assume "pred_option i64_range x" "pred_option i64_range y" "key_optional_i64 x @ r = key_optional_i64 y @ s"
  then show "x = y \<and> r = s" unfolding key_optional_i64_def by (rule i64_code.optional)
qed


interpretation projection_code: prefix_code key_projection "pred_option (\<lambda>ps. len_ok ps \<and> list_all i64_range ps)"
proof unfold_locales
  fix x y r s
  assume ok: "pred_option (\<lambda>ps. len_ok ps \<and> list_all i64_range ps) x"
      "pred_option (\<lambda>ps. len_ok ps \<and> list_all i64_range ps) y"
    and e: "key_projection x @ r = key_projection y @ s"
  show "x = y \<and> r = s"
  proof (cases x)
    case None
    with e show ?thesis by (cases y) (simp_all add: key_projection_def)
  next
    case (Some xs)
    with e obtain ys where y: "y = Some ys" by (cases y) (simp_all add: key_projection_def)
    have "length xs = length ys \<and> concat (map i64_le_bytes xs) @ r = concat (map i64_le_bytes ys) @ s"
      by (rule le_bytes_peel) (use ok e Some y in \<open>simp_all add: key_projection_def len_ok_def\<close>)
    then have "xs = ys \<and> r = s"
      using i64_code.sequence [of xs ys r s] ok Some y by simp
    with Some y show ?thesis by simp
  qed
qed

interpretation at_code: prefix_code key_at "pred_option (\<lambda>(u, v). len_ok u \<and> len_ok v)"
proof unfold_locales
  fix x y r s
  assume ok: "pred_option (\<lambda>(u, v). len_ok u \<and> len_ok v) x" "pred_option (\<lambda>(u, v). len_ok u \<and> len_ok v) y"
    and e: "key_at x @ r = key_at y @ s"
  show "x = y \<and> r = s"
  proof (cases x)
    case None
    with e show ?thesis by (cases y) (simp_all add: key_at_def split: prod.splits)
  next
    case (Some p)
    then obtain u v where x: "x = Some (u, v)" by (cases p) simp
    with e obtain u' v' where y: "y = Some (u', v')" by (cases y) (auto simp: key_at_def)
    have s: "key_string u @ key_string v @ r = key_string u' @ key_string v' @ s"
      using e x y by (simp add: key_at_def)
    have "u = u' \<and> key_string v @ r = key_string v' @ s"
      by (rule string_code.prefix [OF _ _ s]) (use ok x y in simp_all)
    moreover from this have "v = v' \<and> r = s"
      using string_code.prefix [of v v' r s] ok x y by simp
    ultimately show ?thesis using x y by simp
  qed
qed

definition key_ok :: "cache_key \<Rightarrow> bool" where
  "key_ok k \<longleftrightarrow>
     len_ok (ck_catalog k) \<and> len_ok (ck_identity_scope k) \<and> len_ok (ck_worker_label k) \<and> len_ok (ck_function k)
     \<and> len_ok (ck_arguments k) \<and> pred_option (\<lambda>ps. len_ok ps \<and> list_all i64_range ps) (ck_projection k)
     \<and> pred_option len_ok (ck_filters k) \<and> i64_range (ck_catalog_version k)
     \<and> pred_option (\<lambda>(u, v). len_ok u \<and> len_ok v) (ck_at k) \<and> len_ok (ck_settings k)
     \<and> len_ok (ck_attach_options k) \<and> pred_option i64_range (ck_row_limit k) \<and> pred_option len_ok (ck_ordering k)
     \<and> pred_option len_ok (ck_sample k) \<and> pred_option len_ok (ck_plan k)"

lemmas key_peel =
  bytes_code.peel string_code.peel i64_code.peel opt_bytes_code.peel opt_i64_code.peel projection_code.peel
  at_code.peel

text \<open>C21: The stable encoding of cache keys is injective on keys whose buffers have lengths a u64 holds
  and whose integers are 64-bit: two such keys have the same persistent bytes only if they agree in
  every field, so no result is served under another caller's identity or other arguments.\<close>
theorem stable_bytes_injective:
  assumes "key_ok k" "key_ok k'" "stable_bytes k = stable_bytes k'"
  shows "k = k'"
proof -
  have "stable_bytes k @ [] = stable_bytes k' @ []" using assms(3) by simp
  then show ?thesis
    using assms(1,2) opt_bytes_code.peel [of "ck_plan k" "ck_plan k'" "[]" "[]"]
      i64_code.peel [of "ck_catalog_version k" "ck_catalog_version k'" "[]" "[]"]
    unfolding key_ok_def stable_bytes_def
    by (simp add: key_peel cache_key.equality)
qed

theorem stable_bytes_injective_witness:
  "sample_key = (sample_key\<lparr>ck_catalog_version := 7\<rparr>)"
proof (rule stable_bytes_injective)
  show "key_ok sample_key" "key_ok (sample_key\<lparr>ck_catalog_version := 7\<rparr>)"
    by (simp_all add: key_ok_def sample_key_def len_ok_def i64_range_def)
  show "stable_bytes sample_key = stable_bytes (sample_key\<lparr>ck_catalog_version := 7\<rparr>)"
    by (simp add: sample_key_def)
qed

end
