(* ===== verification/Rust_Str.thy ===== *)
theory Rust_Str
  imports VGI_Prelude
begin

text \<open>
  String operations of the Rust standard library that several components use: trimming, ranges at
  character boundaries, parsing unsigned integers, and searching for a pattern. Strings are the
  bytes of their UTF-8 form.
\<close>

text \<open>\<open>str::trim\<close> strips the code points with the property White\_Space, here as UTF-8.\<close>

definition WHITE_SPACE :: "string list" where
  "WHITE_SPACE =
     map (\<lambda>n. [char_of (n :: nat)]) [9, 10, 11, 12, 13, 32]
     @ map (map (char_of :: nat \<Rightarrow> char))
         ([[0xC2, 0x85], [0xC2, 0xA0], [0xE1, 0x9A, 0x80]]
          @ map (\<lambda>n. [0xE2, 0x80, 0x80 + n]) [0, 1, 2, 3, 4, 5, 6, 7, 8, 9, 10, 0x28, 0x29, 0x2F]
          @ [[0xE2, 0x81, 0x9F], [0xE3, 0x80, 0x80]])"

fun strip_spaces :: "nat \<Rightarrow> string list \<Rightarrow> string \<Rightarrow> string" where
  "strip_spaces 0 ps s = s"
| "strip_spaces (Suc n) ps s =
     (case List.find (\<lambda>p. starts_with p s) ps of
        None \<Rightarrow> s
      | Some p \<Rightarrow> strip_spaces n ps (drop (length p) s))"

definition trim :: "string \<Rightarrow> string" where
  "trim s =
     (let t = strip_spaces (length s) WHITE_SPACE s
      in rev (strip_spaces (length t) (map rev WHITE_SPACE) (rev t)))"

lemma white_space_ends:
  "list_all (\<lambda>p. p \<noteq> [] \<and> (code (hd p) < 33 \<or> 128 \<le> code (hd p)) \<and> (code (last p) < 33 \<or> 128 \<le> code (last p)))
     WHITE_SPACE"
  by code_simp

lemma strip_spaces_none:
  assumes "list_all (\<lambda>p. p \<noteq> [] \<and> hd p \<noteq> hd s) ps" "s \<noteq> []"
  shows "strip_spaces n ps s = s"
proof -
  have "\<not> starts_with p s" if "p \<in> set ps" for p
    using that assms by (cases p) (auto simp: list_all_iff starts_with_iff)
  then have "List.find (\<lambda>p. starts_with p s) ps = None" by (auto simp: find_None_iff)
  then show ?thesis by (cases n) simp_all
qed

lemma trim_graphic:
  assumes "s \<noteq> []" "33 \<le> code (hd s)" "code (hd s) < 128" "33 \<le> code (last s)" "code (last s) < 128"
  shows "trim s = s"
proof -
  have "list_all (\<lambda>p. p \<noteq> [] \<and> hd p \<noteq> hd s) WHITE_SPACE"
    using white_space_ends assms(2,3) by (auto simp: list_all_iff)
  then have "strip_spaces (length s) WHITE_SPACE s = s" using assms(1) by (rule strip_spaces_none)
  moreover have "list_all (\<lambda>p. p \<noteq> [] \<and> hd p \<noteq> hd (rev s)) (map rev WHITE_SPACE)"
    using white_space_ends assms(1,4,5) by (auto simp: list_all_iff hd_rev)
  then have "strip_spaces (length s) (map rev WHITE_SPACE) (rev s) = rev s"
    by (rule strip_spaces_none) (use assms(1) in simp)
  ultimately show ?thesis by (simp add: trim_def Let_def)
qed

text \<open>\<open>str::get\<close> on a range: out of range or off a character boundary gives nothing.\<close>

definition is_char_boundary :: "string \<Rightarrow> nat \<Rightarrow> bool" where
  "is_char_boundary s i \<longleftrightarrow> i = length s \<or> i < length s \<and> (code (s ! i) < 128 \<or> 192 \<le> code (s ! i))"

definition str_get :: "string \<Rightarrow> nat \<Rightarrow> nat \<Rightarrow> string option" where
  "str_get s a b =
     (if a \<le> b \<and> is_char_boundary s a \<and> is_char_boundary s b then Some (take (b - a) (drop a s)) else None)"

text \<open>\<open>parse\<close> at an unsigned type with the given largest value.\<close>

definition parse_unsigned :: "nat \<Rightarrow> string \<Rightarrow> nat option" where
  "parse_unsigned most s =
     (case (case s of
              [] \<Rightarrow> None
            | c # cs \<Rightarrow> if c = CHR ''+'' then parse_nat cs else parse_nat s) of
        None \<Rightarrow> None
      | Some n \<Rightarrow> if n \<le> most then Some n else None)"

text \<open>What stands before and behind the first occurrence of a pattern.\<close>

fun find_str :: "string \<Rightarrow> string \<Rightarrow> (string \<times> string) option" where
  "find_str p s =
     (if starts_with p s then Some ([], drop (length p) s)
      else (case s of [] \<Rightarrow> None | c # cs \<Rightarrow> map_option (\<lambda>(a, b). (c # a, b)) (find_str p cs)))"

declare find_str.simps [simp del]

end
