(* ===== verification/Retry.thy ===== *)
theory Retry
  imports Complex_Main Rust_Str
begin

text \<open>
  The client's retry policy, \<open>src/vgi-client/src/retry.rs\<close>: which failures may be retried, the
  \<open>Retry-After\<close> header in both its forms, the backoff decision, the retry loop, and the transport
  wrapper that applies it. Durations are nanoseconds with \<open>Duration\<close>'s saturation. What an attempt
  returns and how long it takes, the jitter drawn, and the error's own fields, which belong to the
  RPC crate, are parameters.
\<close>

section \<open>Statuses\<close>

datatype status_class = Success | Throttled | Transient | Fatal

definition is_retryable :: "status_class \<Rightarrow> bool" where
  "is_retryable c \<longleftrightarrow> c = Throttled \<or> c = Transient"

definition classify_status :: "nat \<Rightarrow> status_class" where
  "classify_status status =
     (if 200 \<le> status \<and> status \<le> 299 then Success
      else if status = 429 then Throttled
      else if 502 \<le> status \<and> status \<le> 504 then Transient
      else Fatal)"

section \<open>Durations\<close>

definition SEC :: nat where "SEC = 1000000000"

definition DURATION_MAX :: nat where "DURATION_MAX = (2 ^ 64 - 1) * SEC + 999999999"

definition sat_add :: "nat \<Rightarrow> nat \<Rightarrow> nat" where "sat_add a b = min (a + b) DURATION_MAX"

definition sat_mul :: "nat \<Rightarrow> nat \<Rightarrow> nat" where "sat_mul a k = min (a * k) DURATION_MAX"

section \<open>The Retry-After header\<close>

text \<open>Rust's division truncates towards zero.\<close>

definition tdiv :: "int \<Rightarrow> int \<Rightarrow> int" where
  "tdiv a b = (if 0 \<le> a then a div b else - ((- a) div b))"

definition days_from_civil :: "int \<Rightarrow> int \<Rightarrow> int \<Rightarrow> int" where
  "days_from_civil y0 m d =
     (let y = (if m \<le> 2 then y0 - 1 else y0);
          era = tdiv (if y \<ge> 0 then y else y - 399) 400;
          yoe = y - era * 400;
          mp = (m + 9) mod 12;
          doy = tdiv (153 * mp + 2) 5 + d - 1;
          doe = yoe * 365 + tdiv yoe 4 - tdiv yoe 100 + doy
      in era * 146097 + doe - 719468)"

definition month_number :: "string \<Rightarrow> nat option" where
  "month_number s =
     map_of [(''Jan'', 1), (''Feb'', 2), (''Mar'', 3), (''Apr'', 4), (''May'', 5), (''Jun'', 6),
             (''Jul'', 7), (''Aug'', 8), (''Sep'', 9), (''Oct'', 10), (''Nov'', 11), (''Dec'', 12)] s"

text \<open>A time is nanoseconds since the epoch.\<close>

definition parse_http_date :: "string \<Rightarrow> nat option" where
  "parse_http_date s =
     (if length s < 29 \<or> \<not> starts_with (rev ''GMT'') (rev s) then None
      else
        Option.bind (Option.bind (str_get s 5 7) (parse_unsigned (2 ^ 32 - 1) \<circ> trim)) (\<lambda>day.
        Option.bind (Option.bind (str_get s 8 11) month_number) (\<lambda>month.
        Option.bind (Option.bind (str_get s 12 16) parse_i64) (\<lambda>year.
        Option.bind (Option.bind (str_get s 17 19) (parse_unsigned (2 ^ 64 - 1))) (\<lambda>hour.
        Option.bind (Option.bind (str_get s 20 22) (parse_unsigned (2 ^ 64 - 1))) (\<lambda>mins.
        Option.bind (Option.bind (str_get s 23 25) (parse_unsigned (2 ^ 64 - 1))) (\<lambda>sec.
          if day = 0 \<or> day > 31 \<or> hour > 23 \<or> mins > 59 \<or> sec > 60 then None
          else
            (let days = days_from_civil year (int month) (int day);
                 secs = days * 86400 + int (hour * 3600 + mins * 60 + min sec 59)
             in if secs < 0 then None else Some (nat secs * SEC)))))))))"

definition parse_retry_after :: "string \<Rightarrow> nat \<Rightarrow> nat option" where
  "parse_retry_after value now =
     (let v = trim value
      in if v = [] then None
         else if list_all is_ascii_digit v then map_option (\<lambda>s. s * SEC) (parse_unsigned (2 ^ 64 - 1) v)
         else map_option (\<lambda>t. t - now) (parse_http_date v))"

section \<open>The policy\<close>

datatype stop_reason = NotRetryable | AttemptsExhausted | DeadlineExceeded

datatype retry_decision = Retry nat | Stop stop_reason

record retry_policy =
  max_attempts :: nat
  max_elapsed :: nat
  base_delay :: nat
  max_delay :: nat

definition retry_policy_default :: retry_policy where
  "retry_policy_default =
     \<lparr>max_attempts = 5, max_elapsed = 60 * SEC, base_delay = 200 * 1000000, max_delay = 5 * SEC\<rparr>"

definition retry_policy_disabled :: retry_policy where
  "retry_policy_disabled = retry_policy_default\<lparr>max_attempts := 1\<rparr>"

text \<open>The shift is at most 16, so \<open>checked_shl\<close> of 1 never fails.\<close>

definition window :: "retry_policy \<Rightarrow> nat \<Rightarrow> nat" where
  "window p attempt =
     (let shift = min (attempt - 1) 16
      in min (sat_mul (base_delay p) (2 ^ shift)) (max_delay p))"

text \<open>
  \<open>scale w j\<close> is \<open>Duration::from_secs_f64(w.as_secs_f64() * j)\<close>: binary64 arithmetic, whose rounding
  is a parameter.
\<close>

type_synonym scale_fn = "nat \<Rightarrow> rat \<Rightarrow> nat"

definition clamp01 :: "rat \<Rightarrow> rat" where
  "clamp01 j = (if j < 0 then 0 else if j > 1 then 1 else j)"

definition retry_delay :: "scale_fn \<Rightarrow> retry_policy \<Rightarrow> nat \<Rightarrow> nat option \<Rightarrow> rat \<Rightarrow> nat" where
  "retry_delay scale p attempt retry_after jitter =
     sat_add (case retry_after of None \<Rightarrow> 0 | Some a \<Rightarrow> a) (scale (window p attempt) (clamp01 jitter))"

definition decide ::
    "scale_fn \<Rightarrow> retry_policy \<Rightarrow> status_class \<Rightarrow> nat \<Rightarrow> nat \<Rightarrow> nat option \<Rightarrow> rat \<Rightarrow> retry_decision" where
  "decide scale p cls attempt elapsed retry_after jitter =
     (if \<not> is_retryable cls then Stop NotRetryable
      else if attempt \<ge> max_attempts p then Stop AttemptsExhausted
      else
        (let delay = retry_delay scale p attempt retry_after jitter
         in if sat_add elapsed delay \<ge> max_elapsed p then Stop DeadlineExceeded else Retry delay))"

section \<open>Errors\<close>

text \<open>\<open>split("HTTP ").nth(1)\<close>: what stands between the first marker and the next, if any.\<close>

definition split_nth1 :: "string \<Rightarrow> string \<Rightarrow> string option" where
  "split_nth1 p s =
     (case find_str p s of
        None \<Rightarrow> None
      | Some (_, rest) \<Rightarrow> (case find_str p rest of None \<Rightarrow> Some rest | Some (a, _) \<Rightarrow> Some a))"

definition status_in_message :: "string \<Rightarrow> nat option" where
  "status_in_message msg =
     (case split_nth1 ''HTTP '' msg of
        None \<Rightarrow> None
      | Some rest \<Rightarrow>
          (let digits = takeWhile is_ascii_digit rest
           in if length digits \<noteq> 3 then None else parse_unsigned 65535 digits))"

text \<open>What the RPC crate provides of an error: its predicate, its retry hint and its display; and the
  formatting of a duration in seconds with one decimal.\<close>

record error_view =
  is_auth_unavailable :: "rpc_error \<Rightarrow> bool"
  retry_after_seconds :: "rpc_error \<Rightarrow> nat option"
  display_error :: "rpc_error \<Rightarrow> string"
  display_secs :: "nat \<Rightarrow> string"

definition gave_up :: "error_view \<Rightarrow> string \<Rightarrow> nat \<Rightarrow> nat \<Rightarrow> stop_reason \<Rightarrow> rpc_error \<Rightarrow> rpc_error" where
  "gave_up ev endpoint attempts elapsed reason err =
     RpcError ''TransportError''
       (endpoint @ '': giving up after '' @ show_nat attempts @ '' attempt(s) over '' @ display_secs ev elapsed
        @ ''s ('' @ (case reason of
                       AttemptsExhausted \<Rightarrow> ''attempt cap reached''
                     | DeadlineExceeded \<Rightarrow> ''retry budget exhausted''
                     | NotRetryable \<Rightarrow> ''not retryable'')
        @ ''); last failure: '' @ display_error ev err)
       None []"

definition classify_error :: "error_view \<Rightarrow> rpc_error \<Rightarrow> status_class \<times> nat option" where
  "classify_error ev err =
     (if is_auth_unavailable ev err then (Transient, map_option (\<lambda>s. s * SEC) (retry_after_seconds ev err))
      else
        (case status_in_message (message err) of
           Some status \<Rightarrow>
             (let cls = classify_status status
              in if is_retryable cls then (cls, map_option (\<lambda>s. s * SEC) (retry_after_seconds ev err))
                 else (Fatal, None))
         | None \<Rightarrow> (Fatal, None)))"

section \<open>The loop\<close>

text \<open>
  The environment of one run: what the n-th attempt returns, how long it takes, the jitter drawn
  after it, by how much the sleep after it overshoots, and the time from the reading of the clock
  that the decision takes to the one that the final error reports.
\<close>

record 'a retry_env =
  env_op :: "nat \<Rightarrow> rpc_error + 'a"
  env_took :: "nat \<Rightarrow> nat"
  env_jitter :: "nat \<Rightarrow> rat"
  env_late :: "nat \<Rightarrow> nat"
  env_reread :: "nat \<Rightarrow> nat"

text \<open>
  One turn with the count of attempts made before it and the clock. The result is what the caller
  sees, the number of attempts, and the time each attempt began.
\<close>

lemma decide_Retry_attempts: "decide scale p cls n e ra j = Retry d \<Longrightarrow> n < max_attempts p"
  by (simp add: decide_def Let_def split: if_splits)

function retry_loop ::
    "scale_fn \<Rightarrow> error_view \<Rightarrow> retry_policy \<Rightarrow> string \<Rightarrow> 'a retry_env \<Rightarrow> nat \<Rightarrow> nat
       \<Rightarrow> (rpc_error + 'a) \<times> nat list" where
  "retry_loop scale ev p endpoint env made clock =
     (let attempt = made + 1; after = clock + env_took env attempt
      in case env_op env attempt of
           Inr v \<Rightarrow> (Inr v, [clock])
         | Inl err \<Rightarrow>
             (case decide scale p (fst (classify_error ev err)) attempt after (snd (classify_error ev err))
                     (env_jitter env attempt) of
                Retry d \<Rightarrow>
                  (let (r, starts) = retry_loop scale ev p endpoint env attempt (after + d + env_late env attempt)
                   in (r, clock # starts))
              | Stop NotRetryable \<Rightarrow> (Inl err, [clock])
              | Stop reason \<Rightarrow> (Inl (gave_up ev endpoint attempt (after + env_reread env attempt) reason err), [clock])))"
  by pat_completeness auto
termination
  by (relation "measure (\<lambda>(_, _, p, _, _, made, _). max_attempts p - made)")
     (auto dest!: decide_Retry_attempts)

declare retry_loop.simps [simp del]

definition retry_run ::
    "scale_fn \<Rightarrow> error_view \<Rightarrow> retry_policy \<Rightarrow> string \<Rightarrow> 'a retry_env \<Rightarrow> (rpc_error + 'a) \<times> nat list" where
  "retry_run scale ev p endpoint env = retry_loop scale ev p endpoint env 0 0"

definition method_is_retryable :: "string \<Rightarrow> bool" where
  "method_is_retryable m \<longleftrightarrow>
     m \<in> {''bind'', ''table_function_plan'', ''catalog_catalogs'', ''catalog_version'', ''catalog_contents''}
     \<or> starts_with ''catalog_schema'' m \<or> starts_with ''catalog_table_'' m"

definition call_unary ::
    "scale_fn \<Rightarrow> error_view \<Rightarrow> retry_policy \<Rightarrow> string \<Rightarrow> 'a retry_env \<Rightarrow> (rpc_error + 'a) \<times> nat list" where
  "call_unary scale ev p m env =
     (if \<not> method_is_retryable m then (env_op env 1, [0]) else retry_run scale ev p m env)"

section \<open>What a run does\<close>

text \<open>
  The pause the policy plans after the k-th attempt: the server's \<open>Retry-After\<close>, and on top of it a
  fraction of the backoff window.
\<close>

definition pause :: "scale_fn \<Rightarrow> error_view \<Rightarrow> retry_policy \<Rightarrow> 'a retry_env \<Rightarrow> nat \<Rightarrow> rpc_error \<Rightarrow> nat" where
  "pause scale ev p env k err =
     (case snd (classify_error ev err) of None \<Rightarrow> 0 | Some after \<Rightarrow> after)
     + scale (window p k) (clamp01 (env_jitter env k))"

abbreviation may_retry :: "error_view \<Rightarrow> rpc_error \<Rightarrow> bool" where
  "may_retry ev err \<equiv> is_retryable (fst (classify_error ev err))"

lemma decide_cases:
  assumes "max_elapsed p \<le> DURATION_MAX"
  shows "decide scale p (fst (classify_error ev err)) k elapsed (snd (classify_error ev err)) (env_jitter env k) =
    (if \<not> may_retry ev err then Stop NotRetryable
     else if max_attempts p \<le> k then Stop AttemptsExhausted
     else if max_elapsed p \<le> elapsed + pause scale ev p env k err then Stop DeadlineExceeded
     else Retry (pause scale ev p env k err))"
  using assms by (auto simp: decide_def Let_def retry_delay_def pause_def sat_add_def min_def)

text \<open>Attempt \<open>k\<close>, begun at \<open>start\<close>, is followed by one begun at \<open>next\<close>.\<close>

definition retried ::
    "scale_fn \<Rightarrow> error_view \<Rightarrow> retry_policy \<Rightarrow> 'a retry_env \<Rightarrow> nat \<Rightarrow> nat \<Rightarrow> nat \<Rightarrow> bool" where
  "retried scale ev p env k start next \<longleftrightarrow>
     (\<exists>err. env_op env k = Inl err \<and> may_retry ev err \<and> k < max_attempts p
        \<and> start + env_took env k + pause scale ev p env k err < max_elapsed p
        \<and> next = start + env_took env k + pause scale ev p env k err + env_late env k)"

text \<open>Attempt \<open>k\<close>, begun at \<open>start\<close>, is the last, and the run returns \<open>r\<close>.\<close>

definition ended ::
    "scale_fn \<Rightarrow> error_view \<Rightarrow> retry_policy \<Rightarrow> string \<Rightarrow> 'a retry_env \<Rightarrow> nat \<Rightarrow> nat \<Rightarrow> rpc_error + 'a \<Rightarrow> bool" where
  "ended scale ev p endpoint env k start r \<longleftrightarrow>
     (case env_op env k of
        Inr v \<Rightarrow> r = Inr v
      | Inl err \<Rightarrow>
          (let elapsed = start + env_took env k;
               failure = (\<lambda>reason. Inl (gave_up ev endpoint k (elapsed + env_reread env k) reason err))
           in if \<not> may_retry ev err then r = Inl err
              else if max_attempts p \<le> k then r = failure AttemptsExhausted
              else max_elapsed p \<le> elapsed + pause scale ev p env k err \<and> r = failure DeadlineExceeded))"

lemma retriedD:
  "retried scale ev p env k start next \<Longrightarrow>
     \<exists>err. env_op env k = Inl err \<and> may_retry ev err
       \<and> start + env_took env k + pause scale ev p env k err < max_elapsed p
       \<and> next = start + env_took env k + pause scale ev p env k err + env_late env k"
  unfolding retried_def by blast

lemma retry_loop_stop:
  assumes "max_elapsed p \<le> DURATION_MAX" "env_op env (Suc made) = Inl err"
    and "\<not> may_retry ev err \<or> max_attempts p \<le> Suc made
      \<or> max_elapsed p \<le> clock + env_took env (Suc made) + pause scale ev p env (Suc made) err"
    and "retry_loop scale ev p endpoint env made clock = (r, starts)"
  shows "starts = [clock] \<and> ended scale ev p endpoint env (Suc made) clock r"
  using assms(2-4)
  by (auto simp: retry_loop.simps [of scale ev p endpoint env made] decide_cases [OF assms(1)] ended_def Let_def
      split: if_splits)

lemma retry_loop_go:
  assumes "max_elapsed p \<le> DURATION_MAX" "env_op env (Suc made) = Inl err" "may_retry ev err" "Suc made < max_attempts p"
    and "clock + env_took env (Suc made) + pause scale ev p env (Suc made) err < max_elapsed p"
    and "retry_loop scale ev p endpoint env made clock = (r, starts)"
  obtains "next" rest where "retried scale ev p env (Suc made) clock next" "starts = clock # rest"
    "retry_loop scale ev p endpoint env (Suc made) next = (r, rest)"
proof -
  let ?next = "clock + env_took env (Suc made) + pause scale ev p env (Suc made) err + env_late env (Suc made)"
  obtain rest where "starts = clock # rest" "retry_loop scale ev p endpoint env (Suc made) ?next = (r, rest)"
    using assms(2-6)
    by (auto simp: retry_loop.simps [of scale ev p endpoint env made] decide_cases [OF assms(1)] Let_def
        split: prod.splits)
  moreover have "retried scale ev p env (Suc made) clock ?next" using assms(2-5) by (auto simp: retried_def)
  ultimately show thesis using that by blast
qed

lemma retry_loop_spec:
  assumes "max_elapsed p \<le> DURATION_MAX" "retry_loop scale ev p endpoint env made clock = (r, starts)"
  shows "starts \<noteq> [] \<and> hd starts = clock
    \<and> (\<forall>i. Suc i < length starts \<longrightarrow> retried scale ev p env (made + Suc i) (starts ! i) (starts ! Suc i))
    \<and> ended scale ev p endpoint env (made + length starts) (last starts) r"
  using assms(2)
proof (induction "max_attempts p - made" arbitrary: made clock starts rule: less_induct)
  case less
  show ?case
  proof (cases "env_op env (Suc made)")
    case (Inr v)
    then have "r = Inr v" "starts = [clock]"
      using less.prems by (simp_all add: retry_loop.simps [of scale ev p endpoint env made] Let_def)
    then show ?thesis using Inr by (simp add: ended_def)
  next
    case (Inl err)
    let ?go = "may_retry ev err \<and> Suc made < max_attempts p
      \<and> clock + env_took env (Suc made) + pause scale ev p env (Suc made) err < max_elapsed p"
    show ?thesis
    proof (cases ?go)
      case False
      then show ?thesis using retry_loop_stop [OF assms(1) Inl _ less.prems] by auto
    next
      case True
      then obtain "next" rest where step: "retried scale ev p env (Suc made) clock next" and starts: "starts = clock # rest"
        and rest: "retry_loop scale ev p endpoint env (Suc made) next = (r, rest)"
        using retry_loop_go [OF assms(1) Inl _ _ _ less.prems] by blast
      have "max_attempts p - Suc made < max_attempts p - made" using True by linarith
      note IH = less.hyps [OF this rest]
      have "retried scale ev p env (made + Suc i) (starts ! i) (starts ! Suc i)" if "Suc i < length starts" for i
        using that IH step starts True by (cases i) (auto simp: hd_conv_nth)
      then show ?thesis using IH starts True by auto
    qed
  qed
qed

text \<open>C1: A retry run ends, after at least one and at most the configured number of attempts, and goes on
  exactly as long as it may. It makes another attempt only after a failure the server invited to
  retry, with attempts left, and when the planned pause (the server's Retry-After and the jittered
  backoff on top of it) is over inside the time budget; the next attempt then begins when that pause
  and the oversleep are over. It stops only at a success or a final failure, which it gives back
  unchanged, at the attempt cap, or when that pause would reach the end of the budget, and in the
  last two cases the error names that cause, the attempts made and the time spent. The budget
  bounds when an attempt may begin, not how long the last one takes.\<close>
theorem retry_run_correct:
  assumes "max_elapsed p \<le> DURATION_MAX" "retry_run scale ev p endpoint env = (r, starts)"
  shows "1 \<le> length starts \<and> length starts \<le> max 1 (max_attempts p) \<and> starts ! 0 = 0
    \<and> (\<forall>i. Suc i < length starts \<longrightarrow>
          (\<exists>err. env_op env (Suc i) = Inl err \<and> may_retry ev err
             \<and> starts ! i + env_took env (Suc i) + pause scale ev p env (Suc i) err < max_elapsed p
             \<and> starts ! Suc i = starts ! i + env_took env (Suc i) + pause scale ev p env (Suc i) err + env_late env (Suc i)))
    \<and> (let k = length starts; elapsed = last starts + env_took env k
       in case env_op env k of
            Inr v \<Rightarrow> r = Inr v
          | Inl err \<Rightarrow>
              if \<not> may_retry ev err then r = Inl err
              else if max_attempts p \<le> k
                then r = Inl (gave_up ev endpoint k (elapsed + env_reread env k) AttemptsExhausted err)
              else max_elapsed p \<le> elapsed + pause scale ev p env k err
                \<and> r = Inl (gave_up ev endpoint k (elapsed + env_reread env k) DeadlineExceeded err))"
proof -
  note spec = retry_loop_spec [OF assms(1) assms(2) [unfolded retry_run_def]]
  have ret: "retried scale ev p env (Suc i) (starts ! i) (starts ! Suc i)" if "Suc i < length starts" for i
    using spec that by simp
  have "length starts \<le> max 1 (max_attempts p)"
  proof (cases "length starts \<le> 1")
    case False
    then have "retried scale ev p env (length starts - 1) (starts ! (length starts - 2)) (starts ! (length starts - 1))"
      using ret [of "length starts - 2"] by (simp add: numeral_2_eq_2 Suc_diff_Suc)
    then have "length starts - 1 < max_attempts p" unfolding retried_def by blast
    then show ?thesis using False by linarith
  qed simp
  moreover have "1 \<le> length starts" "starts ! 0 = 0"
    using conjunct1 [OF spec] conjunct1 [OF conjunct2 [OF spec]] by (simp_all add: hd_conv_nth Suc_le_eq)
  moreover have "ended scale ev p endpoint env (length starts) (last starts) r" using spec by simp
  ultimately show ?thesis
    unfolding ended_def Let_def
    by (intro conjI allI impI) (assumption, assumption, assumption, rule retriedD, erule ret, assumption)
qed

definition sample_view :: error_view where
  "sample_view = \<lparr>is_auth_unavailable = (\<lambda>_. False), retry_after_seconds = (\<lambda>_. Some 2),
     display_error = message, display_secs = (\<lambda>_. ''0.0'')\<rparr>"

definition sample_failure :: rpc_error where
  "sample_failure = RpcError ''TransportError'' ''HTTP 503'' None []"

text \<open>A server that fails the given number of times and then answers.\<close>

definition sample_env :: "nat \<Rightarrow> nat retry_env" where
  "sample_env failures = \<lparr>env_op = (\<lambda>n. if n \<le> failures then Inl sample_failure else Inr 7),
     env_took = (\<lambda>_. 10), env_jitter = (\<lambda>_. 1 / 2), env_late = (\<lambda>_. 0), env_reread = (\<lambda>_. 1)\<rparr>"

lemma status_sample: "status_in_message ''HTTP 503'' = Some 503"
  by (simp add: status_in_message_def split_nth1_def find_str.simps starts_with_def is_ascii_digit_def parse_unsigned_def parse_nat_def
      dec_value_def Let_def)

lemma sample_classified: "classify_error sample_view sample_failure = (Transient, Some (2 * SEC))"
  by (simp add: classify_error_def sample_view_def sample_failure_def status_sample classify_status_def is_retryable_def)

lemmas sample_simps = retry_run_def retry_loop.simps decide_def sample_classified is_retryable_def sample_env_def
  retry_policy_default_def retry_delay_def window_def sat_add_def sat_mul_def DURATION_MAX_def SEC_def Let_def

lemma sample_two:
  "retry_run (\<lambda>w _. w) sample_view retry_policy_default ''bind'' (sample_env 2) = (Inr 7, [0, 2200000010, 4600000020])"
  by (simp add: sample_simps)

lemma sample_nine:
  assumes "five = Suc (Suc (Suc (Suc (Suc 0))))"
  shows "retry_run (\<lambda>w _. w) sample_view retry_policy_default ''bind'' (sample_env 9)
    = (Inl (gave_up sample_view ''bind'' five 11000000051 AttemptsExhausted sample_failure),
       [0, 2200000010, 4600000020, 7400000030, 11000000040])"
  unfolding assms by (simp add: sample_simps)

theorem retry_run_correct_witness:
  "max_elapsed retry_policy_default \<le> DURATION_MAX
   \<and> retry_run (\<lambda>w _. w) sample_view retry_policy_default ''bind'' (sample_env 2) = (Inr 7, [0, 2200000010, 4600000020])
   \<and> [0, 2200000010, 4600000020] ! 1 = 0 + 10 + pause (\<lambda>w _. w) sample_view retry_policy_default (sample_env 2) 1 sample_failure
   \<and> retry_run (\<lambda>w _. w) sample_view retry_policy_default ''bind'' (sample_env 9)
       = (Inl (gave_up sample_view ''bind'' 5 11000000051 AttemptsExhausted sample_failure),
          [0, 2200000010, 4600000020, 7400000030, 11000000040])
   \<and> length [0 :: nat, 2200000010, 4600000020, 7400000030, 11000000040] \<le> max 1 (max_attempts retry_policy_default)"
proof -
  have budget: "max_elapsed retry_policy_default \<le> DURATION_MAX"
    by (simp add: retry_policy_default_def DURATION_MAX_def SEC_def)
  have five: "5 = Suc (Suc (Suc (Suc (Suc 0))))" by simp
  note runs = sample_two sample_nine [OF five]
  note two = retry_run_correct [OF budget runs(1)] and nine = retry_run_correct [OF budget runs(2)]
  have "\<exists>err. env_op (sample_env 2) (Suc 0) = Inl err \<and> [0, 2200000010, 4600000020] ! Suc 0
      = [0, 2200000010, 4600000020] ! 0 + env_took (sample_env 2) (Suc 0)
        + pause (\<lambda>w _. w) sample_view retry_policy_default (sample_env 2) (Suc 0) err + env_late (sample_env 2) (Suc 0)"
    using two by fastforce
  then have "[0, 2200000010, 4600000020] ! 1
      = 0 + 10 + pause (\<lambda>w _. w) sample_view retry_policy_default (sample_env 2) 1 sample_failure"
    by (simp add: sample_env_def)
  moreover have "length [0 :: nat, 2200000010, 4600000020, 7400000030, 11000000040] \<le> max 1 (max_attempts retry_policy_default)"
    using nine by blast
  ultimately show ?thesis using budget runs by blast
qed

text \<open>A unary call whose method is not on the allowlist is sent exactly once, whatever it answers; in
  particular the calls that move session state or fold input into an accumulator.\<close>
theorem state_changing_calls_sent_once:
  "list_all (\<lambda>m. snd (call_unary scale ev p m env) = [0] \<and> fst (call_unary scale ev p m env) = env_op env 1)
     [''catalog_attach'', ''catalog_detach'', ''catalog_transaction_begin'', ''catalog_transaction_commit'',
      ''catalog_transaction_rollback'', ''aggregate_update'', ''table_buffering_process'', ''init'']"
  by (simp add: call_unary_def method_is_retryable_def starts_with_def)

section \<open>The calendar\<close>

definition leap_year :: "int \<Rightarrow> bool" where
  "leap_year y \<longleftrightarrow> 4 dvd y \<and> (\<not> 100 dvd y \<or> 400 dvd y)"

definition month_length :: "int \<Rightarrow> int \<Rightarrow> int" where
  "month_length y m =
     (if m = 2 then (if leap_year y then 29 else 28) else if m \<in> {4, 6, 9, 11} then 30 else 31)"

definition year_days :: "int \<Rightarrow> int" where
  "year_days y = 365 * y + y div 4 - y div 100 + y div 400"

lemma div_by: "0 < k \<Longrightarrow> 0 \<le> r \<Longrightarrow> r < k \<Longrightarrow> x = r + q * k \<Longrightarrow> x div k = q" for x :: int
  by simp

lemma era_floor: "tdiv (if y \<ge> 0 then y else y - 399) 400 = y div 400"
proof (cases "y \<ge> 0")
  case False
  have "y mod 400 < 400" "0 \<le> y mod 400" "y = y mod 400 + y div 400 * 400" by simp_all
  then have "(399 - y) div 400 = - (y div 400)"
    by (intro div_by [of 400 "399 - y mod 400"]) linarith+
  with False show ?thesis by (simp add: tdiv_def)
qed (simp add: tdiv_def)

lemma year_of_era: "y - y div 400 * 400 = y mod 400" for y :: int
  by (simp add: minus_div_mult_eq_mod)

lemma mod_div_era: "(y mod (a * k)) div k = y div k - a * (y div (a * k))" if "0 < k" for y :: int
proof -
  have "y mod (a * k) = y + (- (a * (y div (a * k)))) * k"
    by (simp add: minus_div_mult_eq_mod [symmetric] algebra_simps)
  then have "(y mod (a * k)) div k = (y + (- (a * (y div (a * k)))) * k) div k" by (rule arg_cong)
  also have "\<dots> = - (a * (y div (a * k))) + y div k" by (rule div_mult_self1) (use that in simp)
  finally show ?thesis by simp
qed

lemma year_days_era:
  "y div 400 * 146097 + (y mod 400 * 365 + (y mod 400) div 4 - (y mod 400) div 100) = year_days y" for y :: int
proof -
  have m: "y mod 400 = y - q * 400" if "q = y div 400" for q using that by (simp add: minus_div_mult_eq_mod)
  have "(y mod 400) div 4 = y div 4 - 100 * (y div 400)" "(y mod 400) div 100 = y div 100 - 4 * (y div 400)"
    using mod_div_era [of 4 y 100] mod_div_era [of 100 y 4] by simp_all
  moreover have "q * 146097 + ((y - q * 400) * 365 + (a - 100 * q) - (b - 4 * q)) = 365 * y + a - b + q" for q a b
    by (simp add: algebra_simps)
  ultimately show ?thesis unfolding year_days_def using m by (metis (no_types))
qed

lemma days_from_civil_closed:
  "days_from_civil y m d =
     year_days (if m \<le> 2 then y - 1 else y) + (153 * ((m + 9) mod 12) + 2) div 5 + d - 719469"
proof -
  have t: "tdiv (x mod 400) k = x mod 400 div k" for x k by (simp add: tdiv_def)
  have s: "tdiv (153 * (x mod 12) + 2) 5 = (153 * (x mod 12) + 2) div 5" for x by (simp add: tdiv_def)
  have sum: "e + (a + b - c + (z + d - 1)) - 719468 = Y + z + d - 719469" if "e + (a + b - c) = Y" for e a b c z Y :: int
    using that by simp
  show ?thesis
    unfolding days_from_civil_def Let_def era_floor year_of_era t s by (rule sum [OF year_days_era])
qed

lemma div_pred: "y div k = (y - 1) div k + (if k dvd y then 1 else 0)" if "0 < k" for y k :: int
proof (cases "k dvd y")
  case True
  then obtain q where "y = k * q" by blast
  moreover from this have "(y - 1) div k = q - 1"
    using that by (intro div_by [of k "k - 1"]) (simp_all add: algebra_simps)
  ultimately show ?thesis using that True by simp
next
  case False
  have "y mod k \<noteq> 0" "0 \<le> y mod k" "y mod k < k" using False that by (simp_all add: dvd_eq_mod_eq_0)
  moreover have "y = y mod k + y div k * k" by simp
  ultimately have "(y - 1) div k = y div k" using that by (intro div_by [of k "y mod k - 1"]) linarith+
  with False show ?thesis by simp
qed

lemma year_days_step: "year_days y = year_days (y - 1) + (if leap_year y then 366 else 365)"
proof -
  have sum: "365 * y + A - B + C = 365 * (y - 1) + a - b + c + z"
    if "A = a + i" "B = b + j" "C = c + k" "z = 365 + i - j + k" for A B C a b c i j k z :: int
    using that by simp
  have "(4 :: int) dvd 100" "(100 :: int) dvd 400" by simp_all
  then have "100 dvd y \<Longrightarrow> 4 dvd y" "400 dvd y \<Longrightarrow> 100 dvd y" by (metis dvd_trans)+
  then have z: "(if leap_year y then 366 else 365) = 365 + (if 4 dvd y then 1 else 0)
      - (if 100 dvd y then 1 else 0) + (if 400 dvd y then 1 else 0 :: int)"
    unfolding leap_year_def by (cases "4 dvd y"; cases "100 dvd y"; cases "400 dvd y") simp_all
  show ?thesis unfolding year_days_def
    by (rule sum [OF div_pred div_pred div_pred z]) simp_all
qed

text \<open>C22: The day number of a date is the number of days since 1 January 1970 in the proleptic Gregorian
  calendar, for every year, before and after the epoch: it is 0 there, and one more for each next
  day, also across the end of every month, of February in leap years, and of the year.\<close>
theorem days_from_civil_calendar:
  "days_from_civil 1970 1 1 = 0
   \<and> days_from_civil y m (d + 1) = days_from_civil y m d + 1
   \<and> (m \<in> {1..11} \<longrightarrow> days_from_civil y (m + 1) 1 = days_from_civil y m (month_length y m) + 1)
   \<and> days_from_civil (y + 1) 1 1 = days_from_civil y 12 31 + 1"
proof (intro conjI impI)
  show "days_from_civil 1970 1 1 = 0" by (simp add: days_from_civil_closed year_days_def)
  show "days_from_civil y m (d + 1) = days_from_civil y m d + 1" by (simp add: days_from_civil_closed)
  show "days_from_civil (y + 1) 1 1 = days_from_civil y 12 31 + 1" by (simp add: days_from_civil_closed)
  assume "m \<in> {1..11}"
  then have "1 \<le> m \<and> m \<le> 11" by simp
  then have "m = 1 \<or> m = 2 \<or> m = 3 \<or> m = 4 \<or> m = 5 \<or> m = 6 \<or> m = 7 \<or> m = 8 \<or> m = 9 \<or> m = 10 \<or> m = 11"
    by presburger
  then show "days_from_civil y (m + 1) 1 = days_from_civil y m (month_length y m) + 1"
    by (elim disjE) (simp_all add: days_from_civil_closed month_length_def year_days_step [of y])
qed

theorem days_from_civil_calendar_witness:
  "days_from_civil 2000 3 1 = days_from_civil 2000 2 29 + 1"
  using days_from_civil_calendar [of 2000 2 1] by (simp add: month_length_def leap_year_def)

end
