(* ===== verification/Location.thy ===== *)
theory Location
  imports Rust_Str Prefix_Code
begin

text \<open>
  Worker locations, \<open>src/vgi-client/src/location.rs\<close>: the parser of a \<open>LOCATION\<close>, the shell-like
  splitting of a command line, the display label and the bytes hashed into the cache fingerprint.
  The significant characters of the splitter are ASCII, so working on the UTF-8 bytes splits where
  the code's characters do. \<open>SHA-256\<close> is a parameter.
\<close>

section \<open>Command lines\<close>

datatype argv_state = ArgDefault | InDouble | InSingle

definition BACKSLASH :: char where "BACKSLASH = char_of (92 :: nat)"
definition DQUOTE :: char where "DQUOTE = char_of (34 :: nat)"
definition SQUOTE :: char where "SQUOTE = char_of (39 :: nat)"
definition NEWLINE :: char where "NEWLINE = char_of (10 :: nat)"
definition TAB :: char where "TAB = char_of (9 :: nat)"

lemmas argv_chars = BACKSLASH_def DQUOTE_def SQUOTE_def NEWLINE_def TAB_def

text \<open>State, token under construction, whether there is one, tokens so far, and the rest.\<close>

fun argv_scan :: "bool \<Rightarrow> argv_state \<Rightarrow> string \<Rightarrow> bool \<Rightarrow> string list \<Rightarrow> string \<Rightarrow> string list result" where
  "argv_scan windows st token has_token out [] =
     (if st \<noteq> ArgDefault then Inl (value_error ''unterminated quote in LOCATION argv'')
      else
        (let out = (if has_token then out @ [token] else out)
         in if out = [] then Inl (value_error ''LOCATION has an empty argv'') else Inr out))"
| "argv_scan windows ArgDefault token has_token out (c # cs) =
     (if c = CHR '' '' \<or> c = TAB \<or> c = NEWLINE then
        (if has_token then argv_scan windows ArgDefault [] False (out @ [token]) cs
         else argv_scan windows ArgDefault token has_token out cs)
      else if c = DQUOTE then argv_scan windows InDouble token True out cs
      else if c = SQUOTE then argv_scan windows InSingle token True out cs
      else if c = BACKSLASH \<and> \<not> windows then
        (case cs of
           [] \<Rightarrow> Inl (value_error ''trailing backslash in LOCATION argv'')
         | d # ds \<Rightarrow> argv_scan windows ArgDefault (token @ [d]) True out ds)
      else argv_scan windows ArgDefault (token @ [c]) True out cs)"
| "argv_scan windows InDouble token has_token out (c # cs) =
     (if c = DQUOTE then argv_scan windows ArgDefault token has_token out cs
      else if c = BACKSLASH \<and> cs \<noteq> [] \<and> \<not> windows then
        (case cs of
           [] \<Rightarrow> Inl (value_error [])
         | d # ds \<Rightarrow>
             if d \<in> {DQUOTE, BACKSLASH, CHR ''$'', char_of (96 :: nat), NEWLINE}
             then argv_scan windows InDouble (token @ [d]) has_token out ds
             else argv_scan windows InDouble (token @ [BACKSLASH]) has_token out cs)
      else argv_scan windows InDouble (token @ [c]) has_token out cs)"
| "argv_scan windows InSingle token has_token out (c # cs) =
     (if c = SQUOTE then argv_scan windows ArgDefault token has_token out cs
      else argv_scan windows InSingle (token @ [c]) has_token out cs)"

definition parse_launch_argv :: "bool \<Rightarrow> string \<Rightarrow> string list result" where
  "parse_launch_argv windows payload = argv_scan windows ArgDefault [] False [] payload"

section \<open>Locations\<close>

datatype vgi_location =
    Subprocess "string list"
  | Http string
  | Httpi string
  | Iroh string
  | Unix string
  | Tcp string nat
  | Launch "string list"

text \<open>\<open>rsplit_once\<close> at the last occurrence of a character.\<close>

definition rsplit_once :: "char \<Rightarrow> string \<Rightarrow> (string \<times> string) option" where
  "rsplit_once c s =
     (if c \<in> set s
      then Some (rev (tl (dropWhile (\<lambda>x. x \<noteq> c) (rev s))), rev (takeWhile (\<lambda>x. x \<noteq> c) (rev s)))
      else None)"

definition UNSUPPORTED_SCHEMES :: "string list" where
  "UNSUPPORTED_SCHEMES = [''oci://'', ''docker://'', ''github://'', ''github-auto://'', ''worker:'']"

text \<open>\<open>debug\<close> is the \<open>Debug\<close> rendering of a string, used in one message.\<close>

definition parse_tcp :: "(string \<Rightarrow> string) \<Rightarrow> string \<Rightarrow> vgi_location result" where
  "parse_tcp debug hostport =
     (case rsplit_once (CHR '':'') hostport of
        None \<Rightarrow> Inl (value_error ''tcp:// LOCATION needs host:port'')
      | Some (host, port) \<Rightarrow>
          (case parse_unsigned 65535 port of
             None \<Rightarrow> Inl (value_error (''tcp:// LOCATION has a bad port: '' @ debug port))
           | Some p \<Rightarrow>
               if host = [] then Inl (value_error ''tcp:// LOCATION has no host'') else Inr (Tcp host p)))"

definition location_parse :: "bool \<Rightarrow> (string \<Rightarrow> string) \<Rightarrow> string \<Rightarrow> vgi_location result" where
  "location_parse windows debug location =
     (let s = trim location
      in if s = [] then Inl (value_error ''LOCATION is empty'')
         else
           (case strip_prefix ''launch:'' s of
              Some rest \<Rightarrow> rbind (parse_launch_argv windows rest) (\<lambda>a. Inr (Launch a))
            | None \<Rightarrow>
                if starts_with ''http://'' s \<or> starts_with ''https://'' s then Inr (Http s)
                else if starts_with ''httpi://'' s then Inr (Httpi s)
                else if starts_with ''iroh://'' s then Inr (Iroh s)
                else
                  (case strip_prefix ''unix://'' s of
                     Some path \<Rightarrow>
                       if path = [] then Inl (value_error ''unix:// LOCATION has no path'') else Inr (Unix path)
                   | None \<Rightarrow>
                       (case strip_prefix ''tcp://'' s of
                          Some hostport \<Rightarrow> parse_tcp debug hostport
                        | None \<Rightarrow>
                            (case List.find (\<lambda>p. starts_with p s) UNSUPPORTED_SCHEMES of
                               Some scheme \<Rightarrow>
                                 Inl (value_error
                                   (scheme @ '' LOCATIONs are not supported by this client ''
                                    @ ''(the DuckDB extension resolves them to a local worker command; ''
                                    @ ''resolve it yourself and pass the command)''))
                             | None \<Rightarrow> rbind (parse_launch_argv windows s) (\<lambda>a. Inr (Subprocess a)))))))"

definition label :: "vgi_location \<Rightarrow> string" where
  "label loc =
     (case loc of
        Subprocess argv \<Rightarrow> (case argv of [] \<Rightarrow> ''worker'' | a # _ \<Rightarrow> a)
      | Http url \<Rightarrow> url
      | Httpi url \<Rightarrow> url
      | Iroh url \<Rightarrow> url
      | Unix p \<Rightarrow> ''unix://'' @ p
      | Tcp host port \<Rightarrow> ''tcp://'' @ host @ '':'' @ show_nat port
      | Launch argv \<Rightarrow> ''launch:'' @ (case argv of [] \<Rightarrow> [] | a # _ \<Rightarrow> a))"

section \<open>The cache fingerprint\<close>

definition fingerprint_field :: "bytes \<Rightarrow> bytes" where
  "fingerprint_field b = le_bytes 8 (length b) @ b"

definition fingerprint_argv :: "string list \<Rightarrow> bytes" where
  "fingerprint_argv argv =
     fingerprint_field (le_bytes 8 (length argv)) @ concat (map (\<lambda>a. fingerprint_field (as_bytes a)) argv)"

definition fingerprint_bytes :: "vgi_location \<Rightarrow> bytes" where
  "fingerprint_bytes loc =
     fingerprint_field (as_bytes ''vgi-location-cache-fingerprint-v1'')
     @ (case loc of
          Subprocess argv \<Rightarrow> fingerprint_field (as_bytes ''subprocess'') @ fingerprint_argv argv
        | Http url \<Rightarrow> fingerprint_field (as_bytes ''http'') @ fingerprint_field (as_bytes url)
        | Httpi url \<Rightarrow> fingerprint_field (as_bytes ''httpi'') @ fingerprint_field (as_bytes url)
        | Iroh url \<Rightarrow> fingerprint_field (as_bytes ''iroh'') @ fingerprint_field (as_bytes url)
        | Unix path \<Rightarrow> fingerprint_field (as_bytes ''unix'') @ fingerprint_field (as_bytes path)
        | Tcp host port \<Rightarrow>
            fingerprint_field (as_bytes ''tcp'') @ fingerprint_field (as_bytes host)
            @ fingerprint_field (le_bytes 2 port)
        | Launch argv \<Rightarrow> fingerprint_field (as_bytes ''launch'') @ fingerprint_argv argv)"

definition cache_fingerprint :: "(bytes \<Rightarrow> bytes) \<Rightarrow> vgi_location \<Rightarrow> string" where
  "cache_fingerprint sha256 loc = concat (map hex2 (sha256 (fingerprint_bytes loc)))"

section \<open>Splitting undoes quoting\<close>

definition quote_arg :: "string \<Rightarrow> string" where
  "quote_arg s =
     SQUOTE # concat (map (\<lambda>c. if c = SQUOTE then [SQUOTE, BACKSLASH, SQUOTE, SQUOTE] else [c]) s) @ [SQUOTE]"

definition command_line :: "string list \<Rightarrow> string" where
  "command_line argv = concat (map (\<lambda>a. quote_arg a @ '' '') argv)"

lemma argv_chars_distinct [simp]:
  "SQUOTE \<noteq> DQUOTE" "DQUOTE \<noteq> SQUOTE" "BACKSLASH \<noteq> SQUOTE" "SQUOTE \<noteq> BACKSLASH" "BACKSLASH \<noteq> DQUOTE"
  "CHR '' '' \<noteq> SQUOTE" "SQUOTE \<noteq> CHR '' ''" "BACKSLASH \<noteq> CHR '' ''"
  "SQUOTE \<noteq> TAB" "SQUOTE \<noteq> NEWLINE" "BACKSLASH \<noteq> TAB" "BACKSLASH \<noteq> NEWLINE"
  by (code_simp; simp)+

lemma scan_single:
  "argv_scan False InSingle token True out
     (concat (map (\<lambda>c. if c = SQUOTE then [SQUOTE, BACKSLASH, SQUOTE, SQUOTE] else [c]) s) @ SQUOTE # rest)
   = argv_scan False ArgDefault (token @ s) True out rest"
  by (induction s arbitrary: token) simp_all

lemma scan_quoted:
  "argv_scan False ArgDefault [] False out (quote_arg a @ CHR '' '' # rest)
   = argv_scan False ArgDefault [] False (out @ [a]) rest"
  using scan_single [of "[]" out a "CHR '' '' # rest"] by (simp add: quote_arg_def)

lemma scan_command_line:
  "argv_scan False ArgDefault [] False out (command_line argv)
   = argv_scan False ArgDefault [] False (out @ argv) []"
  by (induction argv arbitrary: out) (simp_all add: command_line_def scan_quoted)

text \<open>C24: Every argument vector can be written as a command line: splitting the arguments quoted in single
  quotes, with a quote inside written the POSIX way, gives exactly the arguments back, whatever
  characters they hold, also empty ones; only the empty vector is refused.\<close>
theorem parse_launch_argv_quoted:
  "parse_launch_argv False (command_line argv)
   = (if argv = [] then Inl (value_error ''LOCATION has an empty argv'') else Inr argv)"
  by (simp add: parse_launch_argv_def scan_command_line)

section \<open>The fingerprint separates locations\<close>

interpretation field_code: prefix_code fingerprint_field len_ok
proof unfold_locales
  fix x y r s assume x: "len_ok x" "len_ok y" and e: "fingerprint_field x @ r = fingerprint_field y @ s"
  have "length x = length y \<and> x @ r = y @ s"
    by (rule le_bytes_peel) (use x e in \<open>simp_all only: len_ok_def fingerprint_field_def append_assoc\<close>)
  then show "x = y \<and> r = s" using append_eq_append_conv [of x y r s] by blast
qed

interpretation text_code: prefix_code "\<lambda>s. fingerprint_field (as_bytes s)" len_ok
proof unfold_locales
  fix x y r s
  assume x: "len_ok x" "len_ok y" and e: "fingerprint_field (as_bytes x) @ r = fingerprint_field (as_bytes y) @ s"
  have "as_bytes x = as_bytes y \<and> r = s"
    by (rule field_code.prefix [OF _ _ e]) (use x in \<open>simp_all add: len_ok_def\<close>)
  then show "x = y \<and> r = s" by simp
qed

interpretation argv_code: prefix_code fingerprint_argv "\<lambda>a. len_ok a \<and> list_all len_ok a"
proof unfold_locales
  fix x y r s
  assume x: "len_ok x \<and> list_all len_ok x" "len_ok y \<and> list_all len_ok y"
    and e: "fingerprint_argv x @ r = fingerprint_argv y @ s"
  let ?enc = "\<lambda>a. concat (map (\<lambda>a. fingerprint_field (as_bytes a)) a)"
  have "le_bytes 8 (length x) = le_bytes 8 (length y) \<and> ?enc x @ r = ?enc y @ s"
    by (rule field_code.prefix) (use e in \<open>simp_all add: len_ok_def fingerprint_argv_def\<close>)
  moreover from this have "length x = length y"
    using le_bytes_peel [of "length x" "length y" "[]" "[]"] x by (simp add: len_ok_def)
  ultimately show "x = y \<and> r = s" using text_code.sequence [of x y r s] x by blast
qed

interpretation port_code: prefix_code "\<lambda>p. fingerprint_field (le_bytes 2 p)" "\<lambda>p. p < 65536"
proof unfold_locales
  fix x y r s
  assume x: "x < 65536" "y < 65536"
    and e: "fingerprint_field (le_bytes 2 x) @ r = fingerprint_field (le_bytes 2 y) @ s"
  have "le_bytes 2 x = le_bytes 2 y \<and> r = s"
    by (rule field_code.prefix [OF _ _ e]) (simp_all add: len_ok_def)
  then show "x = y \<and> r = s" using le_bytes_inject [of x 2 y] x by simp
qed

definition location_sized :: "vgi_location \<Rightarrow> bool" where
  "location_sized loc \<longleftrightarrow>
     (case loc of
        Subprocess a \<Rightarrow> len_ok a \<and> list_all len_ok a
      | Launch a \<Rightarrow> len_ok a \<and> list_all len_ok a
      | Http u \<Rightarrow> len_ok u
      | Httpi u \<Rightarrow> len_ok u
      | Iroh u \<Rightarrow> len_ok u
      | Unix p \<Rightarrow> len_ok p
      | Tcp h p \<Rightarrow> len_ok h \<and> p < 65536)"

lemma tag_ok: "len_ok ''subprocess''" "len_ok ''http''" "len_ok ''httpi''" "len_ok ''iroh''" "len_ok ''unix''"
  "len_ok ''tcp''" "len_ok ''launch''"
  by (simp_all add: len_ok_def)


text \<open>C25: The bytes hashed into a location's cache fingerprint tell locations apart: equal bytes mean the
  same kind of location with the same arguments, URL, path, or host and port. So two locations
  share a fingerprint only by a collision of SHA-256.\<close>
theorem fingerprint_bytes_injective:
  assumes "location_sized l" "location_sized l'" "fingerprint_bytes l = fingerprint_bytes l'"
  shows "l = l'"
  using assms unfolding fingerprint_bytes_def location_sized_def
  by (cases l; cases l')
     (simp_all add: text_code.peel tag_ok text_code.inject argv_code.inject port_code.inject)

theorem fingerprint_bytes_injective_witness:
  "Tcp ''h'' 80 = Tcp ''h'' (40 + 40)"
  by (rule fingerprint_bytes_injective) (simp_all add: location_sized_def len_ok_def)

section \<open>Labels of network locations parse back\<close>

lemma rsplit_once_last:
  assumes "c \<notin> set t"
  shows "rsplit_once c (s @ c # t) = Some (s, t)"
proof -
  have "takeWhile (\<lambda>x. x \<noteq> c) (rev t @ c # rev s) = rev t"
    "dropWhile (\<lambda>x. x \<noteq> c) (rev t @ c # rev s) = c # rev s"
    using assms by (auto simp: takeWhile_append dropWhile_append)
  then show ?thesis by (simp add: rsplit_once_def)
qed

lemma show_nat_no_colon: "CHR '':'' \<notin> set (show_nat n)"
  using show_nat_digits [of "CHR '':''" n] by (auto simp: is_ascii_digit_def)

lemma parse_unsigned_show: "n \<le> most \<Longrightarrow> parse_unsigned most (show_nat n) = Some n"
proof -
  assume n: "n \<le> most"
  obtain c cs where s: "show_nat n = c # cs" using show_nat_nonempty [of n] by (cases "show_nat n") auto
  have "c \<noteq> CHR ''+''" using show_nat_digits [of c n] s by (auto simp: is_ascii_digit_def)
  then have "parse_unsigned most (show_nat n) = (case parse_nat (show_nat n) of None \<Rightarrow> None
      | Some n \<Rightarrow> if n \<le> most then Some n else None)" by (simp add: parse_unsigned_def s)
  then show ?thesis using n by simp
qed

lemma parse_tcp_label: "host \<noteq> [] \<Longrightarrow> port \<le> 65535 \<Longrightarrow> parse_tcp debug (host @ '':'' @ show_nat port) = Inr (Tcp host port)"
  using rsplit_once_last [OF show_nat_no_colon, of host port]
  by (simp add: parse_tcp_def parse_unsigned_show)

definition network_location :: "vgi_location \<Rightarrow> bool" where
  "network_location loc \<longleftrightarrow>
     (case loc of
        Http u \<Rightarrow> starts_with ''http://'' u \<or> starts_with ''https://'' u
      | Httpi u \<Rightarrow> starts_with ''httpi://'' u
      | Iroh u \<Rightarrow> starts_with ''iroh://'' u
      | Unix p \<Rightarrow> p \<noteq> []
      | Tcp h p \<Rightarrow> h \<noteq> [] \<and> p \<le> 65535
      | _ \<Rightarrow> False)"

text \<open>The label of a network location, as shown in plans and errors, is a LOCATION for the same place:
  parsing it gives the location back, for every HTTP, Iroh, Unix or TCP location whose label has no
  white space at its ends.\<close>
theorem location_label_roundtrip:
  assumes "network_location loc" "trim (label loc) = label loc"
  shows "location_parse windows debug (label loc) = Inr loc"
proof (cases loc)
  case (Tcp h p)
  with assms show ?thesis using parse_tcp_label [of h p debug]
    by (simp add: location_parse_def Let_def label_def starts_with_def network_location_def)
next
  case (Unix p)
  with assms show ?thesis
    by (simp add: location_parse_def Let_def label_def starts_with_def network_location_def)
next
  case (Http u)
  then obtain r where "u = ''http://'' @ r \<or> u = ''https://'' @ r"
    using assms(1) by (auto simp: network_location_def starts_with_iff)
  with Http assms(2) show ?thesis
    by (elim disjE) (simp_all add: location_parse_def Let_def label_def starts_with_def)
next
  case (Httpi u)
  then obtain r where "u = ''httpi://'' @ r"
    using assms(1) by (auto simp: network_location_def starts_with_iff)
  with Httpi assms(2) show ?thesis by (simp add: location_parse_def Let_def label_def starts_with_def)
next
  case (Iroh u)
  then obtain r where "u = ''iroh://'' @ r"
    using assms(1) by (auto simp: network_location_def starts_with_iff)
  with Iroh assms(2) show ?thesis by (simp add: location_parse_def Let_def label_def starts_with_def)
qed (use assms in \<open>simp_all add: network_location_def\<close>)

theorem location_label_roundtrip_witness:
  "location_parse False id (label (Unix ''/run/w.sock'')) = Inr (Unix ''/run/w.sock'')"
proof (rule location_label_roundtrip)
  show "network_location (Unix ''/run/w.sock'')" by (simp add: network_location_def)
  show "trim (label (Unix ''/run/w.sock'')) = label (Unix ''/run/w.sock'')"
    by (rule trim_graphic) (simp_all add: label_def)
qed

end
