(* ===== verification/Worker_Pool.thy ===== *)
theory Worker_Pool
  imports Location "HOL-Library.Multiset"
begin

text \<open>
  The client's connection pool, \<open>src/vgi-client/src/pool.rs\<close>: idle connections per key, acquiring with
  reuse, releasing under a cap, flushing, reaping, and the guard that returns a connection when it is
  dropped. The idle map is behind a mutex, so each operation is one step; instants are nanoseconds.
  A connection is a value the caller's \<open>connect\<close> returns, and a poisoned mutex is not modelled.
\<close>

section \<open>Pool state\<close>

definition DEFAULT_IDLE_TIMEOUT :: nat where "DEFAULT_IDLE_TIMEOUT = 5 * 1000000000"
definition DEFAULT_MAX_IDLE :: nat where "DEFAULT_MAX_IDLE = 256"

record pool_config =
  idle_timeout :: nat
  max_idle :: nat

definition pool_config_default :: pool_config where
  "pool_config_default = \<lparr>idle_timeout = DEFAULT_IDLE_TIMEOUT, max_idle = DEFAULT_MAX_IDLE\<rparr>"

definition pool_config_disabled :: pool_config where
  "pool_config_disabled = \<lparr>idle_timeout = 0, max_idle = 0\<rparr>"

definition pooling_enabled :: "pool_config \<Rightarrow> bool" where
  "pooling_enabled cfg \<longleftrightarrow> max_idle cfg > 0 \<and> idle_timeout cfg \<noteq> 0"

record pool_stats =
  ps_hits :: nat
  ps_misses :: nat
  ps_evicted_idle :: nat
  ps_evicted_full :: nat
  ps_discarded_poisoned :: nat
  ps_idle :: nat

record 'c idle =
  idle_client :: 'c
  idle_since :: nat

record 'o pool_key =
  pk_location :: vgi_location
  pk_connection_options :: "'o option"
  pk_auth_scope :: "nat option"

definition key_anonymous :: "vgi_location \<Rightarrow> 'o pool_key" where
  "key_anonymous loc = \<lparr>pk_location = loc, pk_connection_options = None, pk_auth_scope = None\<rparr>"

definition key_with_options :: "vgi_location \<Rightarrow> 'o \<Rightarrow> 'o pool_key" where
  "key_with_options loc opts = \<lparr>pk_location = loc, pk_connection_options = Some opts, pk_auth_scope = None\<rparr>"

definition key_authenticated :: "vgi_location \<Rightarrow> nat \<Rightarrow> 'o \<Rightarrow> 'o pool_key" where
  "key_authenticated loc auth opts =
     \<lparr>pk_location = loc, pk_connection_options = Some opts, pk_auth_scope = Some auth\<rparr>"

record counters =
  c_hits :: nat
  c_misses :: nat
  c_evicted_idle :: nat
  c_evicted_full :: nat
  c_discarded_poisoned :: nat

record ('o, 'c) worker_pool =
  wp_idle :: "('o pool_key \<times> 'c idle list) list"
  wp_config :: pool_config
  wp_counters :: counters

definition pool_new :: "pool_config \<Rightarrow> ('o, 'c) worker_pool" where
  "pool_new cfg =
     \<lparr>wp_idle = [], wp_config = cfg,
      wp_counters = \<lparr>c_hits = 0, c_misses = 0, c_evicted_idle = 0, c_evicted_full = 0, c_discarded_poisoned = 0\<rparr>\<rparr>"

definition tally :: "(counters \<Rightarrow> counters) \<Rightarrow> ('o, 'c) worker_pool \<Rightarrow> ('o, 'c) worker_pool" where
  "tally f p = p\<lparr>wp_counters := f (wp_counters p)\<rparr>"

definition held :: "('o, 'c) worker_pool \<Rightarrow> nat" where
  "held p = sum_list (map (length \<circ> snd) (wp_idle p))"

section \<open>Operations\<close>

text \<open>The pop loop, newest first: the live connection if any, what is left, and how many timed out.\<close>

fun pop_live :: "nat \<Rightarrow> nat \<Rightarrow> 'c idle list \<Rightarrow> 'c option \<times> 'c idle list \<times> nat" where
  "pop_live timeout now [] = (None, [], 0)"
| "pop_live timeout now (e # es) =
     (if now - idle_since e \<le> timeout then (Some (idle_client e), es, 0)
      else (let (c, rest, n) = pop_live timeout now es in (c, rest, n + 1)))"

definition take_idle :: "nat \<Rightarrow> 'o pool_key \<Rightarrow> ('o, 'c) worker_pool \<Rightarrow> 'c option \<times> ('o, 'c) worker_pool" where
  "take_idle now key p =
     (if \<not> pooling_enabled (wp_config p) then (None, p)
      else
        (case map_of (wp_idle p) key of
           None \<Rightarrow> (None, p)
         | Some bucket \<Rightarrow>
             (let (c, rest, n) = pop_live (idle_timeout (wp_config p)) now (rev bucket)
              in (c, tally (\<lambda>c. c\<lparr>c_evicted_idle := c_evicted_idle c + n\<rparr>)
                       (p\<lparr>wp_idle := hm_insert key (rev rest) (wp_idle p)\<rparr>)))))"

record ('o, 'c) pooled_client =
  pc_key :: "'o pool_key"
  pc_client :: "'c option"
  pc_poisoned :: bool

definition pooled_client_new :: "'o pool_key \<Rightarrow> 'c \<Rightarrow> ('o, 'c) pooled_client" where
  "pooled_client_new key c = \<lparr>pc_key = key, pc_client = Some c, pc_poisoned = False\<rparr>"

definition acquire_with ::
    "nat \<Rightarrow> 'o pool_key \<Rightarrow> 'c result \<Rightarrow> ('o, 'c) worker_pool \<Rightarrow> ('o, 'c) pooled_client result \<times> ('o, 'c) worker_pool" where
  "acquire_with now key connect p =
     (case take_idle now key p of
        (Some c, p) \<Rightarrow> (Inr (pooled_client_new key c), tally (\<lambda>c. c\<lparr>c_hits := c_hits c + 1\<rparr>) p)
      | (None, p) \<Rightarrow>
          (rbind connect (\<lambda>c. Inr (pooled_client_new key c)), tally (\<lambda>c. c\<lparr>c_misses := c_misses c + 1\<rparr>) p))"

definition acquire ::
    "nat \<Rightarrow> vgi_location \<Rightarrow> (vgi_location \<Rightarrow> 'c result) \<Rightarrow> ('o, 'c) worker_pool
       \<Rightarrow> ('o, 'c) pooled_client result \<times> ('o, 'c) worker_pool" where
  "acquire now loc connect_location p = acquire_with now (key_anonymous loc) (connect_location loc) p"

definition acquire_with_options ::
    "nat \<Rightarrow> vgi_location \<Rightarrow> 'o \<Rightarrow> (vgi_location \<Rightarrow> 'o \<Rightarrow> 'c result) \<Rightarrow> ('o, 'c) worker_pool
       \<Rightarrow> ('o, 'c) pooled_client result \<times> ('o, 'c) worker_pool" where
  "acquire_with_options now loc opts connect p = acquire_with now (key_with_options loc opts) (connect loc opts) p"

definition acquire_with_auth ::
    "nat \<Rightarrow> vgi_location \<Rightarrow> nat \<Rightarrow> 'o \<Rightarrow> (string \<Rightarrow> nat \<Rightarrow> 'o \<Rightarrow> 'c) \<Rightarrow> ('o, 'c) worker_pool
       \<Rightarrow> ('o, 'c) pooled_client result \<times> ('o, 'c) worker_pool" where
  "acquire_with_auth now loc auth opts connect p =
     (case loc of
        Http url \<Rightarrow> acquire_with now (key_authenticated loc auth opts) (Inr (connect url auth opts)) p
      | _ \<Rightarrow> (Inl (value_error ''authenticated connections require an HTTP(S) LOCATION''), p))"

definition release :: "nat \<Rightarrow> 'o pool_key \<Rightarrow> 'c \<Rightarrow> ('o, 'c) worker_pool \<Rightarrow> ('o, 'c) worker_pool" where
  "release now key c p =
     (if \<not> pooling_enabled (wp_config p) then p
      else if held p \<ge> max_idle (wp_config p) then tally (\<lambda>c. c\<lparr>c_evicted_full := c_evicted_full c + 1\<rparr>) p
      else
        p\<lparr>wp_idle := hm_insert key
            ((case map_of (wp_idle p) key of None \<Rightarrow> [] | Some b \<Rightarrow> b) @ [\<lparr>idle_client = c, idle_since = now\<rparr>])
            (wp_idle p)\<rparr>)"

definition pool_flush :: "('o, 'c) worker_pool \<Rightarrow> nat \<times> ('o, 'c) worker_pool" where
  "pool_flush p = (held p, p\<lparr>wp_idle := []\<rparr>)"

definition pool_reap :: "nat \<Rightarrow> ('o, 'c) worker_pool \<Rightarrow> nat \<times> ('o, 'c) worker_pool" where
  "pool_reap now p =
     (let live = (\<lambda>e. now - idle_since e \<le> idle_timeout (wp_config p));
          closed = sum_list (map (\<lambda>(_, b). length (filter (\<lambda>e. \<not> live e) b)) (wp_idle p));
          kept = filter (\<lambda>(_, b). b \<noteq> []) (map (\<lambda>(k, b). (k, filter live b)) (wp_idle p))
      in (closed, tally (\<lambda>c. c\<lparr>c_evicted_idle := c_evicted_idle c + closed\<rparr>) (p\<lparr>wp_idle := kept\<rparr>)))"

definition stats :: "('o, 'c) worker_pool \<Rightarrow> pool_stats" where
  "stats p =
     \<lparr>ps_hits = c_hits (wp_counters p), ps_misses = c_misses (wp_counters p),
      ps_evicted_idle = c_evicted_idle (wp_counters p), ps_evicted_full = c_evicted_full (wp_counters p),
      ps_discarded_poisoned = c_discarded_poisoned (wp_counters p), ps_idle = held p\<rparr>"

definition poison :: "('o, 'c) pooled_client \<Rightarrow> ('o, 'c) pooled_client" where
  "poison g = g\<lparr>pc_poisoned := True\<rparr>"

text \<open>\<open>with\<close>: run an operation on the connection and poison the guard when it fails.\<close>

definition pooled_with ::
    "('c \<Rightarrow> 'a result \<times> 'c) \<Rightarrow> ('o, 'c) pooled_client \<Rightarrow> 'a result \<times> ('o, 'c) pooled_client" where
  "pooled_with f g =
     (case pc_client g of
        None \<Rightarrow> (Inl (runtime_error ''client taken only on drop''), g)
      | Some c \<Rightarrow>
          (let (out, c) = f c; g = g\<lparr>pc_client := Some c\<rparr>
           in (out, if is_ok out then g else poison g)))"

definition drop_guard ::
    "('c \<Rightarrow> bool) \<Rightarrow> ('c \<Rightarrow> 'c) \<Rightarrow> nat \<Rightarrow> ('o, 'c) pooled_client \<Rightarrow> ('o, 'c) worker_pool \<Rightarrow> ('o, 'c) worker_pool" where
  "drop_guard reusable reset_sink now g p =
     (case pc_client g of
        None \<Rightarrow> p
      | Some c \<Rightarrow>
          if pc_poisoned g \<or> \<not> reusable c
          then tally (\<lambda>c. c\<lparr>c_discarded_poisoned := c_discarded_poisoned c + 1\<rparr>) p
          else release now (pc_key g) (reset_sink c) p)"

section \<open>Idle connections as a multiset\<close>

definition bucket_ms :: "'o pool_key \<Rightarrow> 'c idle list \<Rightarrow> ('o pool_key \<times> 'c) multiset" where
  "bucket_ms k b = image_mset (\<lambda>e. (k, idle_client e)) (mset b)"

definition idle_ms :: "('o pool_key \<times> 'c idle list) list \<Rightarrow> ('o pool_key \<times> 'c) multiset" where
  "idle_ms m = sum_list (map (\<lambda>(k, b). bucket_ms k b) m)"

lemma idle_ms_simps [simp]:
  "idle_ms [] = {#}" "idle_ms ((k, b) # m) = bucket_ms k b + idle_ms m" "idle_ms (m @ m') = idle_ms m + idle_ms m'"
  by (simp_all add: idle_ms_def)

lemma bucket_ms_simps [simp]:
  "bucket_ms k [] = {#}" "bucket_ms k (e # b) = add_mset (k, idle_client e) (bucket_ms k b)"
  "bucket_ms k (b @ b') = bucket_ms k b + bucket_ms k b'" "bucket_ms k (rev b) = bucket_ms k b"
  "size (bucket_ms k b) = length b"
  by (simp_all add: bucket_ms_def)

lemma size_idle_ms: "size (idle_ms m) = sum_list (map (length \<circ> snd) m)"
  by (induction m) auto

lemma held_size: "held p = size (idle_ms (wp_idle p))"
  by (simp add: held_def size_idle_ms)

lemma idle_ms_delete:
  assumes "hm_ok m" "map_of m k = Some b"
  shows "idle_ms m = idle_ms (AList.delete k m) + bucket_ms k b"
  using assms
proof (induction m)
  case (Cons kb m)
  obtain k' b' where kb: "kb = (k', b')" by (cases kb)
  show ?case
  proof (cases "k' = k")
    case True
    then have "k \<notin> fst ` set m" using Cons.prems(1) kb by simp
    then have "AList.delete k m = m" by (simp add: AList.delete_idem)
    then show ?thesis using True kb Cons.prems(2) by (simp add: add.commute)
  next
    case False
    then show ?thesis using Cons kb by (simp add: add.assoc)
  qed
qed simp

lemma idle_ms_insert: "idle_ms (hm_insert k b m) = idle_ms (AList.delete k m) + bucket_ms k b"
  by (simp add: hm_insert_def)

lemma pop_live_ms:
  "pop_live timeout now b = (c, rest, n) \<Longrightarrow>
     (case c of None \<Rightarrow> rest = [] | Some c \<Rightarrow> add_mset (k, c) (bucket_ms k rest) \<subseteq># bucket_ms k b)"
proof (induction b arbitrary: c rest n)
  case (Cons e b)
  show ?case
  proof (cases "now - idle_since e \<le> timeout")
    case True
    with Cons.prems show ?thesis by auto
  next
    case False
    then obtain n' where "pop_live timeout now b = (c, rest, n')"
      using Cons.prems by (auto split: prod.splits)
    from Cons.IH [OF this] show ?thesis
      by (cases c) (auto intro: subset_mset.order_trans [OF _ subset_mset.less_imp_le] simp: subset_mset.le_iff_add)
  qed
qed simp

lemma tally_fields [simp]:
  "wp_idle (tally f p) = wp_idle p" "wp_config (tally f p) = wp_config p"
  by (simp_all add: tally_def)

lemma take_idle_ms:
  assumes "take_idle now key p = (c, p')" "hm_ok (wp_idle p)"
  shows "hm_ok (wp_idle p') \<and> wp_config p' = wp_config p
    \<and> (case c of None \<Rightarrow> idle_ms (wp_idle p') \<subseteq># idle_ms (wp_idle p)
       | Some c \<Rightarrow> add_mset (key, c) (idle_ms (wp_idle p')) \<subseteq># idle_ms (wp_idle p))"
proof (cases "pooling_enabled (wp_config p) \<and> map_of (wp_idle p) key \<noteq> None")
  case True
  then obtain b where b: "map_of (wp_idle p) key = Some b" by blast
  obtain c' rest n where pop: "pop_live (idle_timeout (wp_config p)) now (rev b) = (c', rest, n)"
    by (cases "pop_live (idle_timeout (wp_config p)) now (rev b)") auto
  have c: "c' = c" and p': "wp_idle p' = hm_insert key (rev rest) (wp_idle p)" "wp_config p' = wp_config p"
    using assms(1) True b pop by (auto simp: take_idle_def Let_def)
  have "idle_ms (wp_idle p) = idle_ms (AList.delete key (wp_idle p)) + bucket_ms key b"
    by (rule idle_ms_delete [OF assms(2) b])
  moreover have "idle_ms (wp_idle p') = idle_ms (AList.delete key (wp_idle p)) + bucket_ms key rest"
    using p' by (simp add: idle_ms_insert)
  ultimately show ?thesis
    using pop_live_ms [OF pop, of key] assms(2) p' c by (cases c) auto
next
  case False
  then have "c = None" "p' = p" using assms(1) by (auto simp: take_idle_def split: if_splits)
  with assms(2) show ?thesis by simp
qed

lemma release_ms:
  assumes "hm_ok (wp_idle p)"
  shows "hm_ok (wp_idle (release now key c p)) \<and> wp_config (release now key c p) = wp_config p
    \<and> (release now key c p = p \<or> wp_idle (release now key c p) = wp_idle p
       \<or> idle_ms (wp_idle (release now key c p)) = add_mset (key, c) (idle_ms (wp_idle p))
         \<and> size (idle_ms (wp_idle p)) < max_idle (wp_config p))"
proof (cases "pooling_enabled (wp_config p) \<and> held p < max_idle (wp_config p)")
  case True
  have "idle_ms (wp_idle (release now key c p)) = add_mset (key, c) (idle_ms (wp_idle p))"
  proof (cases "map_of (wp_idle p) key")
    case None
    then have "AList.delete key (wp_idle p) = wp_idle p" by (simp add: map_of_eq_None_iff AList.delete_idem)
    with True None show ?thesis by (simp add: release_def idle_ms_insert)
  next
    case (Some b)
    with True show ?thesis
      using idle_ms_delete [OF assms Some] by (simp add: release_def idle_ms_insert)
  qed
  with True assms show ?thesis by (simp add: held_size) (simp add: release_def held_size)
next
  case False
  with assms show ?thesis by (auto simp: release_def)
qed

lemma reap_ms:
  assumes "hm_ok (wp_idle p)"
  shows "hm_ok (wp_idle (snd (pool_reap now p))) \<and> wp_config (snd (pool_reap now p)) = wp_config p
    \<and> idle_ms (wp_idle (snd (pool_reap now p))) \<subseteq># idle_ms (wp_idle p)"
proof -
  let ?live = "\<lambda>e. now - idle_since e \<le> idle_timeout (wp_config p)"
  let ?kept = "\<lambda>m. filter (\<lambda>(_, b). b \<noteq> []) (map (\<lambda>(k, b). (k, filter ?live b)) m)"
  have "idle_ms (?kept m) \<subseteq># idle_ms m" for m :: "('a pool_key \<times> 'b idle list) list"
  proof (induction m)
    case (Cons kb m)
    obtain k b where "kb = (k, b)" by (cases kb)
    moreover have "bucket_ms k (filter ?live b) \<subseteq># bucket_ms k b"
      by (simp add: bucket_ms_def image_mset_subseteq_mono multiset_filter_subset)
    ultimately show ?case using Cons by (auto intro: subset_mset.add_mono subset_mset.add_increasing)
  qed simp
  moreover have "map fst (map (\<lambda>(k, b). (k, filter ?live b)) m) = map fst m"
    for m :: "('a pool_key \<times> 'b idle list) list"
    by (induction m) auto
  then have "hm_ok (?kept (wp_idle p))" using assms by (metis hm_ok_filter)
  ultimately show ?thesis by (simp add: pool_reap_def Let_def)
qed

section \<open>Clients and the pool together\<close>

text \<open>
  Connections are handles here: each successful \<open>connect\<close> opens the next one. The state holds the
  pool, the guards handed out and not yet dropped, and for the statements below the key each handle
  was opened under and the handles ever poisoned.
\<close>

record 'o pool_sys =
  s_pool :: "('o, nat) worker_pool"
  s_out :: "('o, nat) pooled_client list"
  s_next :: nat
  s_owner :: "nat \<Rightarrow> 'o pool_key"
  s_bad :: "nat set"

inductive pool_step :: "'o pool_sys \<Rightarrow> 'o pool_sys \<Rightarrow> bool" where
  acquired:
    "acquire_with now key (Inr (s_next s)) (s_pool s) = (Inr g, p) \<Longrightarrow>
     pool_step s (s\<lparr>s_pool := p, s_out := g # s_out s, s_next := Suc (s_next s),
       s_owner := (s_owner s)(s_next s := key)\<rparr>)"
| connect_failed:
    "acquire_with now key (Inl e) (s_pool s) = (Inl e', p) \<Longrightarrow> pool_step s (s\<lparr>s_pool := p\<rparr>)"
| use_failed:
    "s_out s = xs @ g # ys \<Longrightarrow>
     pool_step s (s\<lparr>s_out := xs @ poison g # ys, s_bad := s_bad s \<union> set_option (pc_client g)\<rparr>)"
| dropped:
    "s_out s = xs @ g # ys \<Longrightarrow>
     pool_step s (s\<lparr>s_pool := drop_guard reusable id now g (s_pool s), s_out := xs @ ys\<rparr>)"
| flushed: "pool_step s (s\<lparr>s_pool := snd (pool_flush (s_pool s))\<rparr>)"
| reaped: "pool_step s (s\<lparr>s_pool := snd (pool_reap now (s_pool s))\<rparr>)"

definition pool_init :: "pool_config \<Rightarrow> 'o pool_sys" where
  "pool_init cfg = \<lparr>s_pool = pool_new cfg, s_out = [], s_next = 0, s_owner = (\<lambda>_. key_anonymous (Http [])), s_bad = {}\<rparr>"

definition guard_ms :: "('o, nat) pooled_client \<Rightarrow> ('o pool_key \<times> nat) multiset" where
  "guard_ms g = (case pc_client g of None \<Rightarrow> {#} | Some c \<Rightarrow> {#(pc_key g, c)#})"

definition out_ms :: "('o, nat) pooled_client list \<Rightarrow> ('o pool_key \<times> nat) multiset" where
  "out_ms gs = sum_list (map guard_ms gs)"

lemma out_ms_simps [simp]:
  "out_ms [] = {#}" "out_ms (g # gs) = guard_ms g + out_ms gs" "out_ms (gs @ hs) = out_ms gs + out_ms hs"
  by (simp_all add: out_ms_def)

definition all_ms :: "'o pool_sys \<Rightarrow> ('o pool_key \<times> nat) multiset" where
  "all_ms s = idle_ms (wp_idle (s_pool s)) + out_ms (s_out s)"

text \<open>Handles are held once, under the key they were opened with.\<close>

definition owned_ok :: "nat \<Rightarrow> (nat \<Rightarrow> 'o pool_key) \<Rightarrow> ('o pool_key \<times> nat) multiset \<Rightarrow> bool" where
  "owned_ok n owner M \<longleftrightarrow> (\<forall>c. count (image_mset snd M) c \<le> 1) \<and> (\<forall>(k, c) \<in># M. c < n \<and> owner c = k)"

definition sys_ok :: "'o pool_sys \<Rightarrow> bool" where
  "sys_ok s \<longleftrightarrow>
     hm_ok (wp_idle (s_pool s))
     \<and> size (idle_ms (wp_idle (s_pool s))) \<le> max_idle (wp_config (s_pool s))
     \<and> owned_ok (s_next s) (s_owner s) (all_ms s)
     \<and> (\<forall>(k, c) \<in># idle_ms (wp_idle (s_pool s)). c \<notin> s_bad s)
     \<and> (\<forall>g \<in> set (s_out s). \<forall>c. pc_client g = Some c \<longrightarrow> c \<in> s_bad s \<longrightarrow> pc_poisoned g)
     \<and> (\<forall>c \<in> s_bad s. c < s_next s)"

lemma owned_ok_mono: "owned_ok n owner M \<Longrightarrow> M' \<subseteq># M \<Longrightarrow> owned_ok n owner M'"
  unfolding owned_ok_def
  by (meson image_mset_subseteq_mono le_trans mset_subset_eqD mset_subset_eq_count)

lemma owned_ok_fresh:
  assumes "owned_ok n owner M"
  shows "owned_ok (Suc n) (owner(n := key)) (add_mset (key, n) M)"
proof -
  have "n \<notin># image_mset snd M" using assms by (auto simp: owned_ok_def)
  then have "count (image_mset snd M) n = 0" by (meson count_eq_zero_iff)
  then show ?thesis using assms by (auto simp: owned_ok_def less_Suc_eq)
qed

lemma owned_ok_Suc: "owned_ok n owner M \<Longrightarrow> owned_ok (Suc n) (owner(n := key)) M"
  using owned_ok_mono [OF owned_ok_fresh, of n owner M M key] by simp

lemma acquire_with_cases:
  assumes "acquire_with now key connect p = (r, p')" "hm_ok (wp_idle p)"
  shows "hm_ok (wp_idle p') \<and> wp_config p' = wp_config p
    \<and> ((\<exists>c. r = Inr (pooled_client_new key c) \<and> add_mset (key, c) (idle_ms (wp_idle p')) \<subseteq># idle_ms (wp_idle p))
       \<or> r = rbind connect (\<lambda>c. Inr (pooled_client_new key c)) \<and> idle_ms (wp_idle p') \<subseteq># idle_ms (wp_idle p))"
proof -
  obtain c q where t: "take_idle now key p = (c, q)" by (cases "take_idle now key p")
  have "wp_idle p' = wp_idle q" "wp_config p' = wp_config q"
    "case c of None \<Rightarrow> r = rbind connect (\<lambda>c. Inr (pooled_client_new key c)) | Some c \<Rightarrow> r = Inr (pooled_client_new key c)"
    using assms(1) t by (auto simp: acquire_with_def split: option.splits)
  then show ?thesis using take_idle_ms [OF t assms(2)] by (cases c) auto
qed

lemma idle_sub_all: "idle_ms (wp_idle (s_pool s)) \<subseteq># all_ms s"
  by (simp add: all_ms_def)

lemma sys_okD:
  assumes "sys_ok s"
  shows "hm_ok (wp_idle (s_pool s))" "size (idle_ms (wp_idle (s_pool s))) \<le> max_idle (wp_config (s_pool s))"
    "owned_ok (s_next s) (s_owner s) (all_ms s)"
    "\<And>k c. (k, c) \<in># idle_ms (wp_idle (s_pool s)) \<Longrightarrow> c \<notin> s_bad s"
    "\<And>g c. g \<in> set (s_out s) \<Longrightarrow> pc_client g = Some c \<Longrightarrow> c \<in> s_bad s \<Longrightarrow> pc_poisoned g"
    "\<And>c. c \<in> s_bad s \<Longrightarrow> c < s_next s"
  using assms unfolding sys_ok_def by fast+

lemma sys_okI:
  assumes "hm_ok (wp_idle (s_pool s))" "size (idle_ms (wp_idle (s_pool s))) \<le> max_idle (wp_config (s_pool s))"
    "owned_ok (s_next s) (s_owner s) (all_ms s)"
    "\<And>k c. (k, c) \<in># idle_ms (wp_idle (s_pool s)) \<Longrightarrow> c \<notin> s_bad s"
    "\<And>g c. g \<in> set (s_out s) \<Longrightarrow> pc_client g = Some c \<Longrightarrow> c \<in> s_bad s \<Longrightarrow> pc_poisoned g"
    "\<And>c. c \<in> s_bad s \<Longrightarrow> c < s_next s"
  shows "sys_ok s"
  using assms unfolding sys_ok_def by blast

text \<open>A step that only takes connections away from the idle map.\<close>

lemma sys_ok_shrink:
  assumes "sys_ok s" "hm_ok (wp_idle p)" "wp_config p = wp_config (s_pool s)"
    and "idle_ms (wp_idle p) \<subseteq># idle_ms (wp_idle (s_pool s))"
  shows "sys_ok (s\<lparr>s_pool := p\<rparr>)"
proof -
  have "all_ms (s\<lparr>s_pool := p\<rparr>) \<subseteq># all_ms s" using assms(4) by (simp add: all_ms_def)
  then have "owned_ok (s_next s) (s_owner s) (all_ms (s\<lparr>s_pool := p\<rparr>))"
    using owned_ok_mono sys_okD(3) [OF assms(1)] by blast
  moreover have "size (idle_ms (wp_idle p)) \<le> max_idle (wp_config p)"
    using size_mset_mono [OF assms(4)] sys_okD(2) [OF assms(1)] assms(3) by simp
  moreover have "c \<notin> s_bad s" if "(k, c) \<in># idle_ms (wp_idle p)" for k c
    using sys_okD(4) [OF assms(1)] mset_subset_eqD [OF assms(4) that] by blast
  ultimately show ?thesis
    using assms(2) sys_okD(5,6) [OF assms(1)] by (auto simp: sys_ok_def)
qed

lemma sys_ok_acquired:
  assumes "sys_ok s" "acquire_with now key (Inr (s_next s)) (s_pool s) = (Inr g, p)"
  shows "sys_ok (s\<lparr>s_pool := p, s_out := g # s_out s, s_next := Suc (s_next s),
       s_owner := (s_owner s)(s_next s := key)\<rparr>)" (is "sys_ok ?t")
proof -
  note ok = sys_okD [OF assms(1)]
  obtain c where g: "g = pooled_client_new key c"
    and p: "hm_ok (wp_idle p)" "wp_config p = wp_config (s_pool s)" "idle_ms (wp_idle p) \<subseteq># idle_ms (wp_idle (s_pool s))"
    and c: "add_mset (key, c) (idle_ms (wp_idle p)) \<subseteq># idle_ms (wp_idle (s_pool s)) \<or> c = s_next s"
    using acquire_with_cases [OF assms(2) ok(1)] by (auto dest: subset_mset.order_trans [OF subset_mset.less_imp_le] mset_subset_eq_insertD simp: subset_mset.less_imp_le)
  have gm: "guard_ms g = {#(key, c)#}" by (simp add: g guard_ms_def pooled_client_new_def)
  have "owned_ok (Suc (s_next s)) ((s_owner s)(s_next s := key)) (all_ms ?t)"
  proof (cases "c = s_next s")
    case True
    have "all_ms ?t \<subseteq># add_mset (key, s_next s) (all_ms s)" using p(3) gm True by (simp add: all_ms_def)
    then show ?thesis using owned_ok_mono [OF owned_ok_fresh [OF ok(3)]] by blast
  next
    case False
    with c have "all_ms ?t \<subseteq># all_ms s"
      using gm by (simp add: all_ms_def)
    then show ?thesis using owned_ok_mono [OF owned_ok_Suc [OF ok(3)]] by blast
  qed
  moreover have "c \<notin> s_bad s"
    using c ok(4) [of key c] ok(6) [of c] by (auto dest: mset_subset_eqD)
  moreover have "sys_ok (s\<lparr>s_pool := p\<rparr>)" by (rule sys_ok_shrink [OF assms(1) p])
  ultimately show ?thesis
    using ok(5,6) by (auto simp: sys_ok_def g pooled_client_new_def less_Suc_eq)
qed

lemma owned_unique:
  assumes "owned_ok n owner (add_mset (k, c) M)"
  shows "(k', c) \<notin># M"
proof
  assume "(k', c) \<in># M"
  then have "c \<in># image_mset snd M" by force
  then have "1 \<le> count (image_mset snd M) c" by (meson count_greater_eq_one_iff)
  moreover have "count (image_mset snd (add_mset (k, c) M)) c \<le> 1" using assms unfolding owned_ok_def by blast
  moreover have "count (image_mset snd (add_mset (k, c) M)) c = Suc (count (image_mset snd M) c)" by simp
  ultimately show False by linarith
qed

lemma owned_okD: "owned_ok n owner M \<Longrightarrow> (k, c) \<in># M \<Longrightarrow> c < n \<and> owner c = k"
proof -
  assume o: "owned_ok n owner M" "(k, c) \<in># M"
  then have "\<forall>x \<in># M. case x of (k, c) \<Rightarrow> c < n \<and> owner c = k" unfolding owned_ok_def by blast
  from bspec [OF this o(2)] show ?thesis by simp
qed

lemma guard_ms_poison [simp]: "guard_ms (poison g) = guard_ms g"
  by (cases "pc_client g") (simp_all add: guard_ms_def poison_def)

lemma guard_in_out: "g \<in> set gs \<Longrightarrow> pc_client g = Some c \<Longrightarrow> (pc_key g, c) \<in># out_ms gs"
  by (induction gs) (auto simp: guard_ms_def)

lemma sys_ok_use_failed:
  assumes "sys_ok s" "s_out s = xs @ g # ys"
  shows "sys_ok (s\<lparr>s_out := xs @ poison g # ys, s_bad := s_bad s \<union> set_option (pc_client g)\<rparr>)" (is "sys_ok ?t")
proof -
  note ok = sys_okD [OF assms(1)]
  define rest where "rest = idle_ms (wp_idle (s_pool s)) + out_ms xs + out_ms ys"
  have all: "all_ms s = guard_ms g + rest" "all_ms ?t = all_ms s"
    using assms(2) by (simp_all add: all_ms_def rest_def)
  have new: "c < s_next s \<and> (\<forall>k. (k, c) \<notin># rest)" if "pc_client g = Some c" for c
  proof -
    have o: "owned_ok (s_next s) (s_owner s) (add_mset (pc_key g, c) rest)"
      using ok(3) all(1) that by (simp add: guard_ms_def)
    then show ?thesis using owned_unique [OF o] owned_okD [OF o, of "pc_key g" c] by simp
  qed
  show ?thesis
  proof (rule sys_okI)
    fix k c assume "(k, c) \<in># idle_ms (wp_idle (s_pool ?t))"
    then have i: "(k, c) \<in># idle_ms (wp_idle (s_pool s))" "(k, c) \<in># rest" by (simp_all add: rest_def)
    then have "pc_client g \<noteq> Some c" using new by blast
    then show "c \<notin> s_bad ?t" using ok(4) [OF i(1)] by (cases "pc_client g") auto
  next
    fix h c assume h: "h \<in> set (s_out ?t)" "pc_client h = Some c" "c \<in> s_bad ?t"
    show "pc_poisoned h"
    proof (cases "h \<in> set xs \<union> set ys")
      case True
      then have "(pc_key h, c) \<in># rest"
        using guard_in_out [of h xs c] guard_in_out [of h ys c] h(2) by (auto simp: rest_def)
      then have "pc_client g \<noteq> Some c" using new by blast
      then have "c \<in> s_bad s" using h(3) by (cases "pc_client g") auto
      then show ?thesis using ok(5) [of h c] True h(2) assms(2) by auto
    next
      case False
      then show ?thesis using h(1) by (simp add: poison_def)
    qed
  next
    fix c assume "c \<in> s_bad ?t"
    then show "c < s_next ?t" using ok(6) [of c] new [of c] by (cases "pc_client g") auto
  qed (use ok(1-3) all(2) in simp_all)
qed

lemma sys_ok_dropped:
  assumes "sys_ok s" "s_out s = xs @ g # ys"
  shows "sys_ok (s\<lparr>s_pool := drop_guard reusable id now g (s_pool s), s_out := xs @ ys\<rparr>)" (is "sys_ok ?t")
proof -
  note ok = sys_okD [OF assms(1)]
  let ?p = "drop_guard reusable id now g (s_pool s)"
  have p: "hm_ok (wp_idle ?p) \<and> wp_config ?p = wp_config (s_pool s)
      \<and> (wp_idle ?p = wp_idle (s_pool s)
         \<or> (\<exists>c. pc_client g = Some c \<and> \<not> pc_poisoned g
              \<and> idle_ms (wp_idle ?p) = add_mset (pc_key g, c) (idle_ms (wp_idle (s_pool s)))
              \<and> size (idle_ms (wp_idle (s_pool s))) < max_idle (wp_config (s_pool s))))"
  proof (cases "pc_client g")
    case (Some c)
    then show ?thesis
      using release_ms [OF ok(1), of now "pc_key g" c] ok(1) by (auto simp: drop_guard_def)
  qed (use ok(1) in \<open>simp add: drop_guard_def\<close>)
  have "all_ms ?t \<subseteq># all_ms s"
    using p assms(2) by (auto simp: all_ms_def guard_ms_def)
  then have "owned_ok (s_next s) (s_owner s) (all_ms ?t)" using owned_ok_mono ok(3) by blast
  moreover have "c \<notin> s_bad s" if "(k, c) \<in># idle_ms (wp_idle ?p)" for k c
    using p that ok(4) [of k c] ok(5) [of g c] assms(2) by auto
  ultimately show ?thesis
    using p ok(2) ok(5) ok(6) assms(2) by (intro sys_okI) auto
qed

lemma sys_ok_step: "pool_step s t \<Longrightarrow> sys_ok s \<Longrightarrow> sys_ok t"
proof (induction rule: pool_step.induct)
  case (acquired now key s g p)
  then show ?case by (simp add: sys_ok_acquired)
next
  case (connect_failed now key e s e' p)
  have "hm_ok (wp_idle (s_pool s))" by (rule sys_okD [OF connect_failed(2)])
  from acquire_with_cases [OF connect_failed(1) this] show ?case
    by (intro sys_ok_shrink [OF connect_failed(2)]) auto
next
  case (flushed s)
  then show ?case by (intro sys_ok_shrink [OF flushed]) (simp_all add: pool_flush_def)
next
  case (reaped s now)
  then show ?case using reap_ms [OF sys_okD(1) [OF reaped], of now] by (intro sys_ok_shrink [OF reaped]) auto
qed (simp_all add: sys_ok_use_failed sys_ok_dropped)

lemma sys_ok_reachable: "pool_step\<^sup>*\<^sup>* (pool_init cfg) s \<Longrightarrow> sys_ok s"
proof (induction rule: rtranclp_induct)
  case base
  show ?case by (simp add: sys_ok_def pool_init_def pool_new_def all_ms_def owned_ok_def)
next
  case (step s t)
  then show ?case using sys_ok_step by blast
qed

text \<open>C7: In every reachable state of the pool and its callers, whatever the interleaving of acquiring, using,
  dropping, flushing and reaping, no connection is held twice: not by two guards, nor by a guard and the
  idle map. A guard's connection was opened under exactly the guard's key, so under the same location,
  options and authentication scope; a connection that failed once is never idle again; and the idle
  map never holds more than its limit.\<close>
theorem pool_connections_exclusive:
  assumes "pool_step\<^sup>*\<^sup>* (pool_init cfg) s"
  shows "(\<forall>c. count (image_mset snd (idle_ms (wp_idle (s_pool s)) + out_ms (s_out s))) c \<le> 1)
    \<and> (\<forall>g \<in> set (s_out s). \<forall>c. pc_client g = Some c \<longrightarrow> s_owner s c = pc_key g)
    \<and> (\<forall>(k, c) \<in># idle_ms (wp_idle (s_pool s)). s_owner s c = k \<and> c \<notin> s_bad s)
    \<and> held (s_pool s) \<le> max_idle (wp_config (s_pool s))"
proof -
  note ok = sys_okD [OF sys_ok_reachable [OF assms]]
  have o: "owned_ok (s_next s) (s_owner s) (idle_ms (wp_idle (s_pool s)) + out_ms (s_out s))"
    using ok(3) by (simp add: all_ms_def)
  have "\<forall>g \<in> set (s_out s). \<forall>c. pc_client g = Some c \<longrightarrow> s_owner s c = pc_key g"
  proof (intro ballI allI impI)
    fix g c assume "g \<in> set (s_out s)" "pc_client g = Some c"
    then show "s_owner s c = pc_key g" using owned_okD [OF o, of "pc_key g" c] guard_in_out [of g "s_out s" c] by simp
  qed
  moreover have "\<forall>x \<in># idle_ms (wp_idle (s_pool s)). case x of (k, c) \<Rightarrow> s_owner s c = k \<and> c \<notin> s_bad s"
  proof
    fix x assume x: "x \<in># idle_ms (wp_idle (s_pool s))"
    obtain k c where "x = (k, c)" by (cases x)
    with x show "case x of (k, c) \<Rightarrow> s_owner s c = k \<and> c \<notin> s_bad s"
      using owned_okD [OF o, of k c] ok(4) [of k c] by simp
  qed
  moreover have "\<forall>c. count (image_mset snd (idle_ms (wp_idle (s_pool s)) + out_ms (s_out s))) c \<le> 1"
    using o unfolding owned_ok_def by (rule conjunct1)
  moreover have "held (s_pool s) \<le> max_idle (wp_config (s_pool s))" using ok(2) by (simp add: held_size)
  ultimately show ?thesis by (intro conjI)
qed

theorem pool_connections_exclusive_witness:
  "\<exists>s :: nat pool_sys. pool_step\<^sup>*\<^sup>* (pool_init pool_config_default) s \<and> length (s_out s) = 1
     \<and> (\<forall>g \<in> set (s_out s). \<forall>c. pc_client g = Some c \<longrightarrow> s_owner s c = pc_key g)"
proof -
  let ?k = "key_anonymous (Http ''http://h'') :: nat pool_key"
  let ?s = "pool_init pool_config_default :: nat pool_sys"
  have "map_of (wp_idle (s_pool ?s)) ?k = None" by (simp add: pool_init_def pool_new_def)
  then have "take_idle 0 ?k (s_pool ?s) = (None, s_pool ?s)" by (simp add: take_idle_def)
  then have "acquire_with 0 ?k (Inr (s_next ?s)) (s_pool ?s)
      = (Inr (pooled_client_new ?k (s_next ?s)), tally (\<lambda>c. c\<lparr>c_misses := c_misses c + 1\<rparr>) (s_pool ?s))"
    by (simp add: acquire_with_def)
  from pool_step.acquired [OF this] obtain t where t: "pool_step ?s t" "length (s_out t) = 1"
    by (auto simp: pool_init_def)
  have "pool_step\<^sup>*\<^sup>* ?s t" using t(1) by (rule r_into_rtranclp)
  with pool_connections_exclusive [OF this] t(2) show ?thesis by blast
qed

end
