(* ===== verification/Overload.thy ===== *)
theory Overload
  imports Arrow
begin

text \<open>
  Overload resolution, \<open>src/vgi/src/overload.rs\<close>: counting and typing a call's arguments against the
  argument specs of each candidate, and choosing the best. The specs are as in
  \<open>src/vgi/src/function.rs\<close>, with the cols resolution reads; type names are those of
  \<open>src/vgi/src/catalog.rs\<close>.
\<close>

section \<open>Specs and arguments\<close>

record arg_spec =
  arg_name :: string
  arg_position :: int
  arg_arrow_type :: string
  is_const :: bool
  is_varargs :: bool
  arrow_data_type :: "data_type option"

record arguments =
  positional :: "array option list"

definition num_positional :: "arguments \<Rightarrow> nat" where
  "num_positional args = length (positional args)"

definition arg_at :: "arguments \<Rightarrow> nat \<Rightarrow> array option" where
  "arg_at args pos = (if pos < length (positional args) then positional args ! pos else None)"

definition arg_type_to_arrow :: "string \<Rightarrow> data_type" where
  "arg_type_to_arrow t =
     (case map_of
        [(''int8'', Int8), (''int16'', Int16), (''int32'', Int32), (''int64'', Int64),
         (''uint8'', UInt8), (''uint16'', UInt16), (''uint32'', UInt32), (''uint64'', UInt64),
         (''float32'', Float32), (''float'', Float32), (''float64'', Float64), (''double'', Float64),
         (''bool'', Boolean), (''boolean'', Boolean),
         (''varchar'', Utf8), (''string'', Utf8), (''utf8'', Utf8),
         (''blob'', Binary), (''binary'', Binary)] t of
        Some d \<Rightarrow> d
      | None \<Rightarrow> Null)"

section \<open>Types\<close>

lemma field_in_size: "f \<in> set fs \<Longrightarrow> size (field_type f) < size (Struct fs)"
proof (induction fs)
  case (Cons g gs)
  have "size (field_type g) < size g" by (cases g) simp
  with Cons show ?case by auto
qed simp

lemma field_size: "size (field_type f) < size f"
  by (cases f) simp

text \<open>Equality up to field names, nullability and list width.\<close>

function nested_structurally_equal :: "data_type \<Rightarrow> data_type \<Rightarrow> bool" where
  "nested_structurally_equal a b =
     (case a of
        List x \<Rightarrow>
          (case b of
             List y \<Rightarrow> nested_structurally_equal (field_type x) (field_type y)
           | LargeList y \<Rightarrow> nested_structurally_equal (field_type x) (field_type y)
           | _ \<Rightarrow> a = b)
      | LargeList x \<Rightarrow>
          (case b of
             List y \<Rightarrow> nested_structurally_equal (field_type x) (field_type y)
           | LargeList y \<Rightarrow> nested_structurally_equal (field_type x) (field_type y)
           | _ \<Rightarrow> a = b)
      | FixedSizeList x nx \<Rightarrow>
          (case b of
             FixedSizeList y ny \<Rightarrow> nx = ny \<and> nested_structurally_equal (field_type x) (field_type y)
           | _ \<Rightarrow> a = b)
      | MapT x _ \<Rightarrow>
          (case b of
             MapT y _ \<Rightarrow> nested_structurally_equal (field_type x) (field_type y)
           | _ \<Rightarrow> a = b)
      | Struct fx \<Rightarrow>
          (case b of
             Struct fy \<Rightarrow>
               length fx = length fy
               \<and> list_all (\<lambda>(f1, f2). nested_structurally_equal (field_type f1) (field_type f2)) (zip fx fy)
           | _ \<Rightarrow> a = b)
      | _ \<Rightarrow> a = b)"
  by pat_completeness auto
termination
proof (relation "measure (\<lambda>(a, _). size a)")
  fix a b :: data_type and fx fy z f1 f2
  assume "a = Struct fx" "b = Struct fy" "z \<in> set (zip fx fy)" "(f1, f2) = z"
  then have "f1 \<in> set fx" by (auto dest: set_zip_leftD)
  then show "((field_type f1, field_type f2), a, b) \<in> measure (\<lambda>(a, _). size a)"
    using \<open>a = Struct fx\<close> field_in_size by simp
qed (simp_all add: field_size less_Suc_eq)

declare nested_structurally_equal.simps [simp del]

definition is_integer :: "data_type \<Rightarrow> bool" where
  "is_integer t \<longleftrightarrow> t \<in> {Int8, Int16, Int32, Int64, UInt8, UInt16, UInt32, UInt64}"

definition is_float_or_decimal :: "data_type \<Rightarrow> bool" where
  "is_float_or_decimal t \<longleftrightarrow>
     (case t of
        Float16 \<Rightarrow> True | Float32 \<Rightarrow> True | Float64 \<Rightarrow> True
      | Decimal128 _ _ \<Rightarrow> True | Decimal256 _ _ \<Rightarrow> True | _ \<Rightarrow> False)"

definition is_string_type :: "data_type \<Rightarrow> bool" where
  "is_string_type t \<longleftrightarrow> t = Utf8 \<or> t = LargeUtf8"

definition is_binary_type :: "data_type \<Rightarrow> bool" where
  "is_binary_type t \<longleftrightarrow> t = Binary \<or> t = LargeBinary"

definition same_family :: "data_type \<Rightarrow> data_type \<Rightarrow> bool" where
  "same_family a b \<longleftrightarrow>
     is_integer a \<and> is_integer b \<or> is_float_or_decimal a \<and> is_float_or_decimal b
     \<or> is_string_type a \<and> is_string_type b \<or> is_binary_type a \<and> is_binary_type b"

definition score_type :: "data_type \<Rightarrow> arg_spec \<Rightarrow> int option" where
  "score_type actual spec =
     (let expected = (case arrow_data_type spec of
                        Some d \<Rightarrow> d
                      | None \<Rightarrow> arg_type_to_arrow (arg_arrow_type spec))
      in if arrow_data_type spec = None \<and> (arg_arrow_type spec = ''any'' \<or> arg_arrow_type spec = [])
            \<or> expected = Null then Some 0
         else if actual = expected then Some 2
         else if nested_structurally_equal actual expected then Some 2
         else if same_family actual expected then Some 1
         else None)"

section \<open>Scoring\<close>

text \<open>The running sum of a list of scores, refused as soon as one is.\<close>

fun sum_scores :: "int option list \<Rightarrow> int option" where
  "sum_scores [] = Some 0"
| "sum_scores (x # xs) =
     (case x of None \<Rightarrow> None | Some a \<Rightarrow> map_option ((+) a) (sum_scores xs))"

definition score_columns :: "arg_spec list \<Rightarrow> arg_spec option \<Rightarrow> field list \<Rightarrow> int option" where
  "score_columns nonconst_specs varargs_spec cols =
     (case (case varargs_spec of Some vs \<Rightarrow> if is_const vs then None else Some vs | None \<Rightarrow> None) of
        Some vs \<Rightarrow> sum_scores (map (\<lambda>f. score_type (field_type f) vs) cols)
      | None \<Rightarrow> sum_scores (map (\<lambda>(spec, f). score_type (field_type f) spec) (zip nonconst_specs cols)))"

text \<open>The scores of the constant arguments, and of a constant varargs tail.\<close>

definition const_scores :: "arg_spec list \<Rightarrow> arguments \<Rightarrow> int option list" where
  "const_scores const_specs args =
     map (\<lambda>(ord, spec). case arg_at args ord of None \<Rightarrow> Some 0 | Some a \<Rightarrow> score_type (data_type_of a) spec)
       (List.enumerate 0 (filter (\<lambda>s. \<not> is_varargs s) const_specs))"

definition varargs_scores :: "arg_spec option \<Rightarrow> arguments \<Rightarrow> int option list" where
  "varargs_scores varargs_spec args =
     (case varargs_spec of
        Some vs \<Rightarrow>
          if is_const vs \<and> arg_position vs \<ge> 0 then
            map (\<lambda>pos. case arg_at args pos of None \<Rightarrow> Some 0 | Some a \<Rightarrow> score_type (data_type_of a) vs)
              [nat (arg_position vs)..<num_positional args]
          else []
      | None \<Rightarrow> [])"

text \<open>Whether the counts of wire arguments and input columns fit.\<close>

definition counts_fit ::
    "arg_spec list \<Rightarrow> arg_spec list \<Rightarrow> arg_spec option \<Rightarrow> nat \<Rightarrow> field list option \<Rightarrow> bool" where
  "counts_fit const_specs nonconst_specs varargs_spec num_pos input_schema =
     (let num_const = length const_specs;
          input_fields = (case input_schema of None \<Rightarrow> 0 | Some fs \<Rightarrow> length fs)
      in case varargs_spec of
           Some vs \<Rightarrow>
             if is_const vs then num_pos \<ge> num_const - 1
             else num_pos \<ge> num_const
                  \<and> (input_schema = None \<or> input_fields \<ge> length nonconst_specs - 1)
         | None \<Rightarrow>
             num_pos = num_const
             \<and> \<not> (input_schema \<noteq> None \<and> nonconst_specs \<noteq> [] \<and> input_fields \<noteq> length nonconst_specs))"

definition score_candidate :: "arg_spec list \<Rightarrow> bool \<Rightarrow> arguments \<Rightarrow> field list option \<Rightarrow> int option" where
  "score_candidate specs blended args input_schema =
     (let const_specs = filter (\<lambda>s. arg_position s \<ge> 0 \<and> is_const s) specs;
          nonconst_specs = filter (\<lambda>s. arg_position s \<ge> 0 \<and> \<not> is_const s) specs;
          varargs_spec = List.find is_varargs specs
      in if blended then
           (case input_schema of
              None \<Rightarrow> Some 0
            | Some cols \<Rightarrow>
                if (if varargs_spec \<noteq> None
                    then length cols < length (filter (\<lambda>s. \<not> is_varargs s) nonconst_specs)
                    else length cols \<noteq> length nonconst_specs)
                then None
                else score_columns nonconst_specs varargs_spec cols)
         else if \<not> counts_fit const_specs nonconst_specs varargs_spec (num_positional args) input_schema then None
         else
           sum_scores (const_scores const_specs args @ varargs_scores varargs_spec args
             @ (case input_schema of None \<Rightarrow> [] | Some cols \<Rightarrow> [score_columns nonconst_specs varargs_spec cols])))"

text \<open>The loop over the candidates, with the best so far.\<close>

fun best_of :: "(nat \<Rightarrow> int option) \<Rightarrow> nat list \<Rightarrow> (nat \<times> int) option \<Rightarrow> (nat \<times> int) option" where
  "best_of score [] best = best"
| "best_of score (i # is) best =
     best_of score is
       (case score i of
          None \<Rightarrow> best
        | Some s \<Rightarrow> (case best of None \<Rightarrow> Some (i, s) | Some (_, b) \<Rightarrow> if s > b then Some (i, s) else best))"

definition resolve_overload_blended ::
    "nat \<Rightarrow> (nat \<Rightarrow> arg_spec list) \<Rightarrow> (nat \<Rightarrow> bool) \<Rightarrow> arguments \<Rightarrow> field list option \<Rightarrow> nat option" where
  "resolve_overload_blended count specs_of blended_of args input_schema =
     (if count = 1 then Some 0
      else map_option fst
        (best_of (\<lambda>i. score_candidate (specs_of i) (blended_of i) args input_schema) [0..<count] None))"

definition resolve_overload ::
    "nat \<Rightarrow> (nat \<Rightarrow> arg_spec list) \<Rightarrow> arguments \<Rightarrow> field list option \<Rightarrow> nat option" where
  "resolve_overload count specs_of args input_schema =
     resolve_overload_blended count specs_of (\<lambda>_. False) args input_schema"

section \<open>The choice is the first best\<close>

lemma best_of_append: "best_of score (xs @ ys) b = best_of score ys (best_of score xs b)"
  by (induction xs arbitrary: b) simp_all

definition first_best :: "(nat \<Rightarrow> int option) \<Rightarrow> nat \<Rightarrow> nat \<Rightarrow> int \<Rightarrow> bool" where
  "first_best score n i s \<longleftrightarrow>
     i < n \<and> score i = Some s \<and> (\<forall>j < n. \<forall>t. score j = Some t \<longrightarrow> t \<le> s \<and> (t = s \<longrightarrow> i \<le> j))"

lemma best_of_spec:
  "case best_of score [0..<n] None of
     None \<Rightarrow> \<forall>i < n. score i = None
   | Some (i, s) \<Rightarrow> first_best score n i s"
proof (induction n)
  case (Suc n)
  note IH = Suc
  have step: "best_of score [0..<Suc n] None = best_of score [n] (best_of score [0..<n] None)"
    by (simp add: best_of_append)
  show ?case
  proof (cases "best_of score [0..<n] None")
    case None
    with Suc show ?thesis unfolding step
      by (cases "score n") (auto simp: first_best_def less_Suc_eq)
  next
    case (Some p)
    then obtain i s where p: "best_of score [0..<n] None = Some (i, s)" by (cases p) simp
    with Suc have fb: "first_best score n i s" by simp
    show ?thesis
    proof (cases "score n")
      case None
      with fb show ?thesis unfolding step p by (auto simp: first_best_def less_Suc_eq)
    next
      case (Some t)
      then show ?thesis using fb unfolding step p
        by (cases "s < t") (force simp: first_best_def less_Suc_eq)+
    qed
  qed
qed simp

lemma resolve_blended_spec:
  assumes "count \<noteq> 1"
  shows "case resolve_overload_blended count specs_of blended_of args schema of
     None \<Rightarrow> \<forall>i < count. score_candidate (specs_of i) (blended_of i) args schema = None
   | Some i \<Rightarrow> \<exists>s. first_best (\<lambda>i. score_candidate (specs_of i) (blended_of i) args schema) count i s"
  using best_of_spec [where score = "\<lambda>i. score_candidate (specs_of i) (blended_of i) args schema" and n = count] assms
  by (auto simp: resolve_overload_blended_def split: option.splits)

lemma first_best_unique: "first_best score n i s \<Longrightarrow> first_best score n j t \<Longrightarrow> i = j"
  unfolding first_best_def by (metis order_antisym)

text \<open>A lone candidate is taken as it is, also when it does not fit the call.\<close>

lemma lone_candidate: "resolve_overload_blended 1 specs_of blended_of args schema = Some 0"
  by (simp add: resolve_overload_blended_def)

text \<open>C26: With none or several overloads registered, the one chosen is exactly the one that fits the call, has
  the highest score of all that fit, and is the first registered of those with that score; none is
  chosen exactly when none fits. A lone candidate is chosen unchecked: whether it fits is not asked.\<close>
theorem resolve_overload_best:
  "(if count = 1 then resolve_overload_blended count specs_of blended_of args schema = Some 0
    else
      (resolve_overload_blended count specs_of blended_of args schema = None
         \<longleftrightarrow> (\<forall>i < count. score_candidate (specs_of i) (blended_of i) args schema = None))
      \<and> (\<forall>i. resolve_overload_blended count specs_of blended_of args schema = Some i
         \<longleftrightarrow> i < count
           \<and> (\<exists>s. score_candidate (specs_of i) (blended_of i) args schema = Some s
                \<and> (\<forall>j < count. \<forall>t. score_candidate (specs_of j) (blended_of j) args schema = Some t
                     \<longrightarrow> t \<le> s \<and> (t = s \<longrightarrow> i \<le> j)))))"
proof (cases "count = 1")
  case False
  let ?score = "\<lambda>i. score_candidate (specs_of i) (blended_of i) args schema"
  let ?pick = "resolve_overload_blended count specs_of blended_of args schema"
  note spec = resolve_blended_spec [OF False, of specs_of blended_of args schema]
  have some: "?pick = Some i \<longleftrightarrow> (\<exists>s. first_best ?score count i s)" for i
  proof
    assume "\<exists>s. first_best ?score count i s"
    then obtain s where s: "first_best ?score count i s" ..
    then have "?pick \<noteq> None" using spec by (auto simp: first_best_def split: option.splits)
    then obtain j where "?pick = Some j" by blast
    then show "?pick = Some i" using spec first_best_unique [OF s] by auto
  qed (use spec in simp)
  have none: "?pick = None \<longleftrightarrow> (\<forall>i < count. ?score i = None)"
    using spec by (auto simp: first_best_def split: option.splits)
  show ?thesis using False none some unfolding first_best_def by auto
qed (use lone_candidate in simp)

section \<open>Exact types win\<close>

lemma score_type_bound: "score_type a spec = Some k \<Longrightarrow> k \<le> 2"
  by (auto simp: score_type_def Let_def split: if_splits)

lemma sum_scores_bound:
  assumes "sum_scores xs = Some s" "\<And>k. Some k \<in> set xs \<Longrightarrow> k \<le> 2"
  shows "s \<le> 2 * int (length xs)"
  using assms
proof (induction xs arbitrary: s)
  case (Cons x xs)
  then obtain a t where "x = Some a" "sum_scores xs = Some t" "s = a + t"
    by (auto split: option.splits)
  with Cons.IH [of t] Cons.prems(2) [of a] Cons.prems(2) show ?case by fastforce
qed simp

lemma score_columns_bound:
  assumes "score_columns specs vs cols = Some s"
  shows "s \<le> 2 * int (length cols)"
proof -
  have m: "s \<le> 2 * int (length xs)" if "sum_scores (map (\<lambda>x. score_type (t x) (u x)) xs) = Some s"
    for t u and xs :: "'x list"
    using sum_scores_bound [OF that] score_type_bound by (metis (no_types, lifting) imageE length_map set_map)
  show ?thesis
  proof (cases "case vs of Some vs \<Rightarrow> if is_const vs then None else Some vs | None \<Rightarrow> None")
    case None
    then have "sum_scores (map (\<lambda>x. score_type (field_type (snd x)) (fst x)) (zip specs cols)) = Some s"
      using assms by (simp add: score_columns_def case_prod_unfold)
    then have "s \<le> 2 * int (length (zip specs cols))" by (rule m)
    then show ?thesis by simp
  next
    case (Some v)
    then have "sum_scores (map (\<lambda>x. score_type (field_type x) v) cols) = Some s"
      using assms by (simp add: score_columns_def)
    then show ?thesis by (rule m)
  qed
qed

lemma map_plus_zero [simp]: "map_option ((+) (0 :: int)) x = x"
  by (cases x) simp_all

lemma sum_scores_zero: "set xs \<subseteq> {Some 0} \<Longrightarrow> sum_scores (xs @ ys) = sum_scores ys"
  by (induction xs) auto

lemma no_wire_scores:
  assumes "positional args = []"
  shows "set (const_scores specs args @ varargs_scores vs args) \<subseteq> {Some 0}"
  using assms by (auto simp: const_scores_def varargs_scores_def arg_at_def num_positional_def split: option.splits)

lemma score_candidate_no_wire:
  assumes "positional args = []" "score_candidate specs False args (Some cols) = Some s"
  shows "s \<le> 2 * int (length cols)"
proof -
  obtain c nc vs where "sum_scores (const_scores c args @ varargs_scores vs args @ [score_columns nc vs cols]) = Some s"
    using assms(2) by (auto simp: score_candidate_def Let_def split: if_splits)
  then have "score_columns nc vs cols = Some s"
    using sum_scores_zero [OF no_wire_scores [OF assms(1), of c vs], of "[score_columns nc vs cols]"]
    by (auto split: option.splits)
  then show ?thesis by (rule score_columns_bound)
qed

text \<open>A spec that declares exactly the type of a column.\<close>

definition exact_spec :: "arg_spec \<Rightarrow> field \<Rightarrow> bool" where
  "exact_spec spec f \<longleftrightarrow>
     arg_position spec \<ge> 0 \<and> \<not> is_const spec \<and> \<not> is_varargs spec
     \<and> arrow_data_type spec = Some (field_type f) \<and> field_type f \<noteq> Null"

lemma exact_score: "exact_spec spec f \<Longrightarrow> score_type (field_type f) spec = Some 2"
  by (simp add: exact_spec_def score_type_def Let_def)

lemma exact_columns:
  assumes "list_all2 exact_spec specs cols"
  shows "sum_scores (map (\<lambda>(spec, f). score_type (field_type f) spec) (zip specs cols)) = Some (2 * int (length cols))"
  using assms by (induction rule: list_all2_induct) (simp_all add: exact_score)

lemma exact_candidate:
  assumes "positional args = []" "list_all2 exact_spec specs cols"
  shows "score_candidate specs False args (Some cols) = Some (2 * int (length cols))"
proof -
  have all: "s \<in> set specs \<Longrightarrow> arg_position s \<ge> 0 \<and> \<not> is_const s \<and> \<not> is_varargs s" for s
    using assms(2) by (induction rule: list_all2_induct) (auto simp: exact_spec_def)
  then have "filter (\<lambda>s. arg_position s \<ge> 0 \<and> is_const s) specs = []"
    "filter (\<lambda>s. arg_position s \<ge> 0 \<and> \<not> is_const s) specs = specs" "List.find is_varargs specs = None"
    by (auto simp: filter_empty_conv filter_id_conv find_None_iff)
  moreover have "length specs = length cols" using assms(2) by (rule list_all2_lengthD)
  ultimately show ?thesis
    using assms(1) exact_columns [OF assms(2)]
    by (simp add: score_candidate_def Let_def counts_fit_def num_positional_def const_scores_def varargs_scores_def
        score_columns_def)
qed

text \<open>An overload that declares exactly the types of the input columns is never passed over for one that
  fits less well: when the call has only column arguments and such an overload is registered, the one
  chosen matches every column exactly too.\<close>
theorem exact_overload_wins:
  assumes "count \<noteq> 1" "positional args = []" "j < count" "list_all2 exact_spec (specs_of j) cols"
  shows "\<exists>i. resolve_overload count specs_of args (Some cols) = Some i \<and> i \<le> j
    \<and> score_candidate (specs_of i) False args (Some cols) = Some (2 * int (length cols))"
proof -
  let ?score = "\<lambda>i. score_candidate (specs_of i) False args (Some cols)"
  have sj: "?score j = Some (2 * int (length cols))" by (rule exact_candidate [OF assms(2,4)])
  note spec = resolve_blended_spec [OF assms(1), of specs_of "\<lambda>_. False" args "Some cols"]
  obtain i s where i: "resolve_overload_blended count specs_of (\<lambda>_. False) args (Some cols) = Some i"
    "first_best ?score count i s"
    using spec assms(3) sj by (auto split: option.splits)
  then have "?score i = Some s" "2 * int (length cols) \<le> s" "2 * int (length cols) = s \<longrightarrow> i \<le> j"
    using assms(3) sj unfolding first_best_def by blast+
  moreover from this have "s \<le> 2 * int (length cols)" using score_candidate_no_wire [OF assms(2)] by blast
  ultimately show ?thesis using i(1) by (auto simp: resolve_overload_def)
qed

definition sample_specs :: "nat \<Rightarrow> arg_spec list" where
  "sample_specs i =
     [\<lparr>arg_name = ''x'', arg_position = 0, arg_arrow_type = [], is_const = False, is_varargs = False,
       arrow_data_type = Some (if i = 0 then Int32 else Int64)\<rparr>]"

definition sample_cols :: "field list" where
  "sample_cols = [Field ''x'' Int64 True []]"

definition sample_text :: "field list" where
  "sample_text = [Field ''x'' Utf8 True []]"

lemmas sample_scores = sample_specs_def sample_cols_def sample_text_def score_candidate_def counts_fit_def
  num_positional_def const_scores_def varargs_scores_def score_columns_def score_type_def
  nested_structurally_equal.simps same_family_def is_integer_def is_float_or_decimal_def is_string_type_def
  is_binary_type_def Let_def

text \<open>The exact match is chosen over the earlier one of the same family; of two that do not fit none is; and
  the lone candidate that does not fit is.\<close>

theorem resolve_overload_best_witness:
  "resolve_overload_blended 2 sample_specs (\<lambda>_. False) \<lparr>positional = []\<rparr> (Some sample_cols) = Some 1
   \<and> resolve_overload_blended 2 sample_specs (\<lambda>_. False) \<lparr>positional = []\<rparr> (Some sample_text) = None
   \<and> score_candidate (sample_specs 0) False \<lparr>positional = []\<rparr> (Some sample_text) = None
   \<and> resolve_overload_blended 1 sample_specs (\<lambda>_. False) \<lparr>positional = []\<rparr> (Some sample_text) = Some 0"
proof (intro conjI)
  have less2: "i < 2 \<longleftrightarrow> i = 0 \<or> i = 1" for i :: nat by auto
  have cols: "score_candidate (sample_specs 0) False \<lparr>positional = []\<rparr> (Some sample_cols) = Some 1"
    "score_candidate (sample_specs 1) False \<lparr>positional = []\<rparr> (Some sample_cols) = Some 2"
    by (simp_all add: sample_scores)
  have texts: "score_candidate (sample_specs i) False \<lparr>positional = []\<rparr> (Some sample_text) = None" for i
    by (simp add: sample_scores)
  show "resolve_overload_blended 2 sample_specs (\<lambda>_. False) \<lparr>positional = []\<rparr> (Some sample_cols) = Some 1"
    using resolve_overload_best [of 2 sample_specs "\<lambda>_. False" "\<lparr>positional = []\<rparr>" "Some sample_cols"] cols
    by (simp add: less2)
  show "resolve_overload_blended 2 sample_specs (\<lambda>_. False) \<lparr>positional = []\<rparr> (Some sample_text) = None"
    using resolve_overload_best [of 2 sample_specs "\<lambda>_. False" "\<lparr>positional = []\<rparr>" "Some sample_text"] texts
    by simp
  show "score_candidate (sample_specs 0) False \<lparr>positional = []\<rparr> (Some sample_text) = None" by (rule texts)
  show "resolve_overload_blended 1 sample_specs (\<lambda>_. False) \<lparr>positional = []\<rparr> (Some sample_text) = Some 0"
    using resolve_overload_best [of 1 sample_specs "\<lambda>_. False" "\<lparr>positional = []\<rparr>" "Some sample_text"] by simp
qed

theorem exact_overload_wins_witness:
  "\<exists>i. resolve_overload 2 sample_specs \<lparr>positional = []\<rparr> (Some sample_cols) = Some i \<and> i \<le> 1
    \<and> score_candidate (sample_specs i) False \<lparr>positional = []\<rparr> (Some sample_cols) = Some (2 * int (length sample_cols))"
  by (rule exact_overload_wins) (simp_all add: sample_specs_def sample_cols_def exact_spec_def)

end
