(* ===== verification/Numeric.thy ===== *)
theory Numeric
  imports Arrow
begin

text \<open>
  Result types of numeric scalar functions, \<open>src/vgi/src/numeric.rs\<close>: promotion for addition, the
  common type of two operands, and the two functions that cast to the bound type and add. Arrow's
  casts, its addition kernel and its batch constructor are parameters. A decimal's precision is a
  \<open>u8\<close>, here a natural number.
\<close>

section \<open>Types\<close>

definition promote_for_addition :: "data_type \<Rightarrow> data_type" where
  "promote_for_addition ty =
     (case ty of
        Float16 \<Rightarrow> Float64 | Float32 \<Rightarrow> Float64 | Float64 \<Rightarrow> Float64
      | Int8 \<Rightarrow> Int16 | Int16 \<Rightarrow> Int32 | Int32 \<Rightarrow> Int64 | Int64 \<Rightarrow> Int64
      | UInt8 \<Rightarrow> UInt16 | UInt16 \<Rightarrow> UInt32 | UInt32 \<Rightarrow> UInt64 | UInt64 \<Rightarrow> UInt64
      | Decimal128 p s \<Rightarrow> Decimal128 (min (p + 1) 38) s
      | _ \<Rightarrow> ty)"

text \<open>Bit width and signedness of an integer type.\<close>

definition int_info :: "data_type \<Rightarrow> (nat \<times> bool) option" where
  "int_info t =
     (case t of
        Int8 \<Rightarrow> Some (8, True) | Int16 \<Rightarrow> Some (16, True) | Int32 \<Rightarrow> Some (32, True) | Int64 \<Rightarrow> Some (64, True)
      | UInt8 \<Rightarrow> Some (8, False) | UInt16 \<Rightarrow> Some (16, False) | UInt32 \<Rightarrow> Some (32, False)
      | UInt64 \<Rightarrow> Some (64, False)
      | _ \<Rightarrow> None)"

definition is_float :: "data_type \<Rightarrow> bool" where
  "is_float t \<longleftrightarrow> t = Float16 \<or> t = Float32 \<or> t = Float64"

text \<open>Precision and scale of a 128-bit decimal.\<close>

definition decimal_info :: "data_type \<Rightarrow> (nat \<times> int) option" where
  "decimal_info t = (case t of Decimal128 p s \<Rightarrow> Some (p, s) | _ \<Rightarrow> None)"

definition common_numeric :: "data_type \<Rightarrow> data_type \<Rightarrow> data_type" where
  "common_numeric a b =
     (if a = b then a
      else if is_float a \<or> is_float b then Float64
      else
        (case (decimal_info a, decimal_info b) of
           (Some (pa, sa), Some (pb, sb)) \<Rightarrow> Decimal128 (max pa pb) (max sa sb)
         | _ \<Rightarrow>
             (case (int_info a, int_info b) of
                (Some (ba, sgna), Some (bb, sgnb)) \<Rightarrow>
                  if sgna = sgnb then (if ba \<ge> bb then a else b) else Int64
              | _ \<Rightarrow> Int64)))"

definition common_type_for_addition :: "data_type \<Rightarrow> data_type \<Rightarrow> data_type" where
  "common_type_for_addition a b = promote_for_addition (common_numeric a b)"

section \<open>Adding columns\<close>

text \<open>What Arrow provides: a cast, the strict cast of decimals, addition, and batch construction.\<close>

record arrow_kernels =
  k_cast :: "array \<Rightarrow> data_type \<Rightarrow> string + array"
  k_cast_strict :: "array \<Rightarrow> data_type \<Rightarrow> string + array"
  k_add :: "array \<Rightarrow> array \<Rightarrow> string + array"
  k_try_new :: "field list \<Rightarrow> array list \<Rightarrow> string + record_batch"
  k_debug_type :: "data_type \<Rightarrow> string"

definition output_type :: "field list \<Rightarrow> data_type result" where
  "output_type output_schema =
     (case output_schema of
        [] \<Rightarrow> Inl (runtime_error ''output schema has no fields'')
      | f # _ \<Rightarrow> Inr (field_type f))"

definition cast_to :: "arrow_kernels \<Rightarrow> array \<Rightarrow> data_type \<Rightarrow> array result" where
  "cast_to K col ty =
     map_err (\<lambda>e. runtime_error (''cast to '' @ k_debug_type K ty @ '': '' @ e)) (k_cast K col ty)"

definition result_batch :: "arrow_kernels \<Rightarrow> field list \<Rightarrow> array \<Rightarrow> record_batch result" where
  "result_batch K output_schema arr =
     map_err (\<lambda>e. runtime_error (''build result batch: '' @ e)) (k_try_new K output_schema [arr])"

definition precision_error :: "nat \<Rightarrow> rpc_error" where
  "precision_error p = value_error (''Decimal value does not fit in precision '' @ show_nat p)"

definition double_first :: "arrow_kernels \<Rightarrow> field list \<Rightarrow> record_batch \<Rightarrow> record_batch result" where
  "double_first K output_schema batch =
     rbind (output_type output_schema) (\<lambda>ty.
       case decimal_info ty of
         Some (p, s) \<Rightarrow>
           rbind (cast_to K (columns batch ! 0) (Decimal256 76 s)) (\<lambda>c.
           rbind (map_err (\<lambda>_. precision_error p) (k_add K c c)) (\<lambda>summed.
           rbind (map_err (\<lambda>_. precision_error p) (k_cast_strict K summed ty)) (\<lambda>narrowed.
             result_batch K output_schema narrowed)))
       | None \<Rightarrow>
           rbind (cast_to K (columns batch ! 0) ty) (\<lambda>c.
           rbind (map_err (\<lambda>e. runtime_error (''double add: '' @ e)) (k_add K c c)) (\<lambda>out.
           rbind (cast_to K out ty) (\<lambda>out. result_batch K output_schema out))))"

definition add_two :: "arrow_kernels \<Rightarrow> field list \<Rightarrow> record_batch \<Rightarrow> record_batch result" where
  "add_two K output_schema batch =
     rbind (output_type output_schema) (\<lambda>ty.
     rbind (cast_to K (columns batch ! 0) ty) (\<lambda>a.
     rbind (cast_to K (columns batch ! 1) ty) (\<lambda>b.
     rbind (map_err (\<lambda>e. runtime_error (''add: '' @ e)) (k_add K a b)) (\<lambda>out.
     rbind (cast_to K out ty) (\<lambda>out. result_batch K output_schema out)))))"

section \<open>Headroom\<close>

text \<open>The values of an integer type.\<close>

definition int_fits :: "data_type \<Rightarrow> int \<Rightarrow> bool" where
  "int_fits t x \<longleftrightarrow>
     (case int_info t of
        Some (w, True) \<Rightarrow> - (2 ^ (w - 1)) \<le> x \<and> x < 2 ^ (w - 1)
      | Some (w, False) \<Rightarrow> 0 \<le> x \<and> x < 2 ^ w
      | None \<Rightarrow> False)"

lemma small_int_cases:
  assumes "int_info t = Some (w, sg)" "w \<le> 32"
  obtains "t = Int8" | "t = Int16" | "t = Int32" | "t = UInt8" | "t = UInt16" | "t = UInt32"
  using assms by (cases t) (simp_all add: int_info_def)

lemma common_numeric_sym: "common_numeric a b = common_numeric b a"
proof (cases "a = b \<or> is_float a \<or> is_float b")
  case False
  have eq: "a = b" if "int_info a = Some (w, sg)" "int_info b = Some (w, sg)" for w sg
    using that by (cases a; cases b) (auto simp: int_info_def)
  show ?thesis
  proof (cases "int_info a"; cases "int_info b")
    fix x y assume "int_info a = Some x" "int_info b = Some y"
    moreover obtain ba sa bb sb where "x = (ba, sa)" "y = (bb, sb)" by (cases x; cases y) blast
    ultimately show ?thesis using eq False
      by (cases "ba = bb") (auto simp: common_numeric_def max.commute split: option.splits)
  qed (use False in \<open>auto simp: common_numeric_def max.commute split: option.splits prod.splits\<close>)
qed (auto simp: common_numeric_def)

text \<open>C28: The type chosen for an addition does not depend on the order of the operands, and for integer
  operands of at most 32 bits it has the headroom it is chosen for: both operands and their sum fit,
  whatever their widths and signs.\<close>
theorem addition_headroom:
  "common_type_for_addition a b = common_type_for_addition b a
   \<and> (int_info a = Some (wa, sa) \<and> int_info b = Some (wb, sb) \<and> wa \<le> 32 \<and> wb \<le> 32
      \<and> int_fits a x \<and> int_fits b y
      \<longrightarrow> int_fits (common_type_for_addition a b) x \<and> int_fits (common_type_for_addition a b) y
          \<and> int_fits (common_type_for_addition a b) (x + y))"
proof (intro conjI impI)
  show "common_type_for_addition a b = common_type_for_addition b a"
    by (simp add: common_type_for_addition_def common_numeric_sym [of a b])
  assume h: "int_info a = Some (wa, sa) \<and> int_info b = Some (wb, sb) \<and> wa \<le> 32 \<and> wb \<le> 32
      \<and> int_fits a x \<and> int_fits b y"
  then have f: "int_fits a x" "int_fits b y" by simp_all
  have "int_fits (common_type_for_addition a b) x \<and> int_fits (common_type_for_addition a b) y
          \<and> int_fits (common_type_for_addition a b) (x + y)"
    using h f
    by (elim conjE small_int_cases [of a] small_int_cases [of b])
       (simp_all add: common_type_for_addition_def common_numeric_def promote_for_addition_def int_info_def
         int_fits_def is_float_def decimal_info_def)
  then show "int_fits (common_type_for_addition a b) x" "int_fits (common_type_for_addition a b) y"
    "int_fits (common_type_for_addition a b) (x + y)" by simp_all
qed

theorem addition_headroom_witness:
  "int_fits (common_type_for_addition UInt32 Int8) (4294967295 + (-128))"
proof -
  have "int_info UInt32 = Some (32, False) \<and> int_info Int8 = Some (8, True) \<and> (32 :: nat) \<le> 32 \<and> (8 :: nat) \<le> 32
      \<and> int_fits UInt32 4294967295 \<and> int_fits Int8 (-128)"
    by (simp add: int_info_def int_fits_def)
  then show ?thesis using addition_headroom [of UInt32 Int8 32 False 8 True 4294967295 "-128"] by blast
qed

text \<open>With an unsigned 64-bit operand the signed type chosen for mixed signs does not hold its values.\<close>

lemma mixed_sign_overflow:
  "int_fits UInt64 (2 ^ 63) \<and> \<not> int_fits (common_type_for_addition UInt64 Int8) (2 ^ 63)"
  by (simp add: common_type_for_addition_def common_numeric_def promote_for_addition_def int_info_def
      int_fits_def is_float_def decimal_info_def)

end
