(* ===== verification/Opaque.thy ===== *)
theory Opaque
  imports Envelope Arrow
begin

text \<open>
  Sealed opaque values, \<open>src/vgi/src/opaque.rs\<close>: the associated data that binds a value to its caller
  (and a transaction to its attach), sealing and opening one value, and rewriting whole requests
  and results. The authenticated encryption, the IPC codec, Arrow's cast and its batch constructor
  are parameters. The code's \<open>expect\<close> on an absent column is the outcome \<open>Panics\<close>; the nesting a
  request may have is not bounded by the code, so opening takes the depth it may descend, and
  running out of it is the outcome \<open>Deep\<close>.
\<close>

section \<open>Constants and associated data\<close>

definition ATTACH_ENVELOPE_VERSION :: byte where "ATTACH_ENVELOPE_VERSION = 2"
definition TRANSACTION_ENVELOPE_VERSION :: byte where "TRANSACTION_ENVELOPE_VERSION = 2"
definition ATTACH_AAD_PREFIX :: bytes where
  "ATTACH_AAD_PREFIX = as_bytes ''vgi.attach_opaque_data.v1'' @ [0]"
definition TRANSACTION_AAD_PREFIX :: bytes where
  "TRANSACTION_AAD_PREFIX = as_bytes ''vgi.transaction_opaque_data.v1'' @ [0]"
definition ATTACH_FIELD :: string where "ATTACH_FIELD = ''attach_opaque_data''"
definition TRANSACTION_FIELD :: string where "TRANSACTION_FIELD = ''transaction_opaque_data''"
definition NESTED_FIELDS :: "string list" where "NESTED_FIELDS = [''request'', ''bind_call'']"
definition OPAQUE_REJECTED_KIND :: string where "OPAQUE_REJECTED_KIND = ''opaque_data_not_recognized''"

definition opaque_data_rejected :: "string \<Rightarrow> rpc_error" where
  "opaque_data_rejected field = RpcError ''ValueError'' (field @ '' not recognized'') (Some OPAQUE_REJECTED_KIND) []"

definition short_hash :: "(bytes \<Rightarrow> bytes) \<Rightarrow> bytes \<Rightarrow> string" where
  "short_hash sha256 v = take 12 (concat (map hex2 (sha256 (as_bytes (concat (map hex2 v))))))"

definition opaque_identity_tail :: "auth_context \<Rightarrow> bytes" where
  "opaque_identity_tail auth =
     (if \<not> authenticated auth then 0 # as_bytes ''anonymous''
      else [1] @ as_bytes (auth_domain auth) @ [0] @ as_bytes (auth_principal auth))"

definition attach_aad :: "auth_context \<Rightarrow> bytes" where
  "attach_aad auth = ATTACH_AAD_PREFIX @ opaque_identity_tail auth"

definition transaction_aad :: "auth_context \<Rightarrow> bytes \<Rightarrow> bytes" where
  "transaction_aad auth attach_envelope =
     TRANSACTION_AAD_PREFIX @ opaque_identity_tail auth @ [0] @ attach_envelope"

section \<open>One value\<close>

definition op_seal_attach :: "seal_fn \<Rightarrow> nonce \<Rightarrow> bytes \<Rightarrow> bytes \<Rightarrow> auth_context \<Rightarrow> bytes" where
  "op_seal_attach seal n key plaintext auth = seal n plaintext key (attach_aad auth) ATTACH_ENVELOPE_VERSION"

definition open_attach :: "open_fn \<Rightarrow> bytes \<Rightarrow> bytes \<Rightarrow> auth_context \<Rightarrow> bytes result" where
  "open_attach opn key envelope auth =
     map_err (\<lambda>_. opaque_data_rejected ATTACH_FIELD) (opn envelope key (attach_aad auth) ATTACH_ENVELOPE_VERSION)"

definition seal_transaction :: "seal_fn \<Rightarrow> nonce \<Rightarrow> bytes \<Rightarrow> bytes \<Rightarrow> auth_context \<Rightarrow> bytes \<Rightarrow> bytes" where
  "seal_transaction seal n key plaintext auth attach_envelope =
     seal n plaintext key (transaction_aad auth attach_envelope) TRANSACTION_ENVELOPE_VERSION"

definition open_transaction :: "open_fn \<Rightarrow> bytes \<Rightarrow> bytes \<Rightarrow> auth_context \<Rightarrow> bytes \<Rightarrow> bytes result" where
  "open_transaction opn key envelope auth attach_envelope =
     map_err (\<lambda>_. opaque_data_rejected TRANSACTION_FIELD)
       (opn envelope key (transaction_aad auth attach_envelope) TRANSACTION_ENVELOPE_VERSION)"

section \<open>Columns\<close>

datatype 'a outcome = Returns "'a result" | Panics | Deep

fun obind :: "'a outcome \<Rightarrow> ('a \<Rightarrow> 'b outcome) \<Rightarrow> 'b outcome" where
  "obind (Returns (Inr v)) f = f v"
| "obind (Returns (Inl e)) f = Returns (Inl e)"
| "obind Panics f = Panics"
| "obind Deep f = Deep"

text \<open>Left to right, stopping at the first that does not succeed.\<close>

fun traverse :: "('a \<Rightarrow> 'b outcome) \<Rightarrow> 'a list \<Rightarrow> 'b list outcome" where
  "traverse f [] = Returns (Inr [])"
| "traverse f (x # xs) = obind (f x) (\<lambda>y. obind (traverse f xs) (\<lambda>ys. Returns (Inr (y # ys))))"

record opaque_env =
  oe_cast :: cast_fn
  oe_read_batch :: read_batch_fn
  oe_read_schema :: "bytes \<Rightarrow> field list result"
  oe_write_batch :: "record_batch \<Rightarrow> field list \<Rightarrow> bytes result"
  oe_try_new :: "field list \<Rightarrow> array list \<Rightarrow> string + record_batch"

definition is_binary_column :: "data_type \<Rightarrow> bool" where
  "is_binary_column t \<longleftrightarrow> t = Binary \<or> t = LargeBinary"

definition binary_column :: "opaque_env \<Rightarrow> record_batch \<Rightarrow> string \<Rightarrow> array option result" where
  "binary_column E batch name =
     (case column_by_name batch name of
        None \<Rightarrow> Inr None
      | Some column \<Rightarrow>
          (let field_error = (if name = TRANSACTION_FIELD then opaque_data_rejected TRANSACTION_FIELD
                              else opaque_data_rejected ATTACH_FIELD)
           in if data_type_of column = Binary then Inr (downcast Binary column)
              else if data_type_of column = LargeBinary then
                rbind (map_err (\<lambda>_. field_error) (oe_cast E column Binary)) (\<lambda>b. Inr (downcast Binary b))
              else if data_type_of column = Null then Inr None
              else if name = ATTACH_FIELD \<or> name = TRANSACTION_FIELD then Inl field_error
              else Inr None))"

definition map_slot :: "(nat \<Rightarrow> bytes \<Rightarrow> bytes outcome) \<Rightarrow> array \<Rightarrow> nat \<Rightarrow> scalar option outcome" where
  "map_slot f vals row =
     (if is_null vals row then Returns (Inr None)
      else if bytes_value vals row = [] then Returns (Inr (Some (SBytes [])))
      else obind (f row (bytes_value vals row)) (\<lambda>b. Returns (Inr (Some (SBytes b)))))"

definition map_binary :: "array \<Rightarrow> (nat \<Rightarrow> bytes \<Rightarrow> bytes outcome) \<Rightarrow> array outcome" where
  "map_binary vals f =
     obind (traverse (map_slot f vals) [0..<array_len vals])
       (\<lambda>out. Returns (Inr \<lparr>data_type_of = Binary, slots = out\<rparr>))"

definition rewrite_nested ::
    "opaque_env \<Rightarrow> bytes \<Rightarrow> (record_batch \<Rightarrow> record_batch outcome) \<Rightarrow> bytes outcome" where
  "rewrite_nested E nested f =
     obind (Returns (oe_read_schema E nested)) (\<lambda>declared.
     obind (obind (Returns (oe_read_batch E nested)) f) (\<lambda>out.
       Returns (oe_write_batch E out declared)))"

section \<open>Requests\<close>

definition touches :: "string \<Rightarrow> bool" where
  "touches name \<longleftrightarrow> name = ATTACH_FIELD \<or> name = TRANSACTION_FIELD \<or> name \<in> set NESTED_FIELDS"

text \<open>\<open>Option::expect\<close>.\<close>

definition expect :: "'a option \<Rightarrow> 'a outcome" where
  "expect x = (case x of None \<Rightarrow> Panics | Some v \<Rightarrow> Returns (Inr v))"

text \<open>The sealed attach of a row, if that row has one.\<close>

definition attach_of_row :: "array option \<Rightarrow> nat \<Rightarrow> bytes result" where
  "attach_of_row sealed_attach row =
     (case sealed_attach of
        None \<Rightarrow> Inl (opaque_data_rejected TRANSACTION_FIELD)
      | Some a \<Rightarrow>
          if is_null a row then Inl (opaque_data_rejected TRANSACTION_FIELD) else Inr (bytes_value a row))"

definition open_column ::
    "opaque_env \<Rightarrow> open_fn \<Rightarrow> bytes \<Rightarrow> auth_context \<Rightarrow> (record_batch \<Rightarrow> record_batch outcome) \<Rightarrow> record_batch
       \<Rightarrow> array option \<Rightarrow> field \<times> array \<Rightarrow> array outcome" where
  "open_column E opn key auth nested_open batch sealed_attach fc =
     (let name = field_name (fst fc); column = snd fc
      in if name = ATTACH_FIELD then
           obind (expect sealed_attach) (\<lambda>vals.
             map_binary vals (\<lambda>_ sealed. Returns (open_attach opn key sealed auth)))
         else if name = TRANSACTION_FIELD then
           obind (Returns (binary_column E batch TRANSACTION_FIELD)) (\<lambda>vals.
           obind (expect vals) (\<lambda>vals.
             map_binary vals (\<lambda>row sealed.
               Returns (rbind (attach_of_row sealed_attach row) (\<lambda>attach.
                 open_transaction opn key sealed auth attach)))))
         else if name \<in> set NESTED_FIELDS \<and> is_binary_column (data_type_of column) then
           obind (Returns (binary_column E batch name)) (\<lambda>vals.
           obind (expect vals) (\<lambda>vals.
             map_binary vals (\<lambda>_ nested. rewrite_nested E nested nested_open)))
         else Returns (Inr column))"

primrec open_batch ::
    "nat \<Rightarrow> opaque_env \<Rightarrow> open_fn \<Rightarrow> bytes \<Rightarrow> auth_context \<Rightarrow> record_batch \<Rightarrow> record_batch outcome" where
  "open_batch 0 E opn key auth batch = Deep"
| "open_batch (Suc depth) E opn key auth batch =
     (if \<not> list_ex (\<lambda>f. touches (field_name f)) (schema_fields batch) then Returns (Inr batch)
      else
        obind (Returns (binary_column E batch ATTACH_FIELD)) (\<lambda>sealed_attach.
        obind (traverse (open_column E opn key auth (open_batch depth E opn key auth) batch sealed_attach)
                 (zip (schema_fields batch) (columns batch))) (\<lambda>cols.
          Returns (map_err (\<lambda>e. runtime_error (''rebuild opened request: '' @ e))
            (oe_try_new E (schema_fields batch) cols)))))"

section \<open>Results\<close>

text \<open>\<open>Schema::index_of\<close>.\<close>

fun find_index :: "('a \<Rightarrow> bool) \<Rightarrow> 'a list \<Rightarrow> nat option" where
  "find_index P [] = None"
| "find_index P (x # xs) = (if P x then Some 0 else map_option Suc (find_index P xs))"

text \<open>Each sealing draws a nonce; \<open>nonce_of\<close> gives the one for a row.\<close>

definition seal_inner ::
    "opaque_env \<Rightarrow> seal_fn \<Rightarrow> (nat \<Rightarrow> nonce) \<Rightarrow> bytes \<Rightarrow> auth_context \<Rightarrow> string \<Rightarrow> bytes option \<Rightarrow> record_batch
       \<Rightarrow> record_batch outcome" where
  "seal_inner E seal nonce_of key auth field attach_envelope inner =
     obind (Returns (binary_column E inner field)) (\<lambda>vals.
       case vals of
         None \<Rightarrow> Returns (Inr inner)
       | Some vals \<Rightarrow>
           obind (map_binary vals (\<lambda>row plaintext.
             Returns (Inr (case attach_envelope of
               None \<Rightarrow> op_seal_attach seal (nonce_of row) key plaintext auth
             | Some attach \<Rightarrow> seal_transaction seal (nonce_of row) key plaintext auth attach)))) (\<lambda>sealed.
           obind (expect (find_index (\<lambda>f. field_name f = field) (schema_fields inner))) (\<lambda>index.
             Returns (map_err (\<lambda>e. runtime_error (''rebuild sealed result: '' @ e))
               (oe_try_new E (schema_fields inner) ((columns inner)[index := sealed]))))))"

definition sealed_field :: "string \<Rightarrow> string option" where
  "sealed_field m =
     (if m = ''catalog_attach'' then Some ATTACH_FIELD
      else if m = ''catalog_transaction_begin'' then Some TRANSACTION_FIELD else None)"

definition bound_attach :: "opaque_env \<Rightarrow> string \<Rightarrow> record_batch \<Rightarrow> bytes option result" where
  "bound_attach E field request =
     (if field = TRANSACTION_FIELD then
        rbind (binary_column E request ATTACH_FIELD) (\<lambda>a.
          case a of
            None \<Rightarrow> Inl (opaque_data_rejected ATTACH_FIELD)
          | Some a \<Rightarrow>
              if array_len a = 0 \<or> is_null a 0 then Inl (opaque_data_rejected ATTACH_FIELD)
              else Inr (Some (bytes_value a 0)))
      else Inr None)"

definition seal_result ::
    "opaque_env \<Rightarrow> seal_fn \<Rightarrow> (nat \<Rightarrow> nonce) \<Rightarrow> bytes \<Rightarrow> string \<Rightarrow> record_batch \<Rightarrow> record_batch option \<Rightarrow> auth_context
       \<Rightarrow> record_batch option outcome" where
  "seal_result E seal nonce_of key m request res auth =
     (case sealed_field m of
        None \<Rightarrow> Returns (Inr res)
      | Some field \<Rightarrow>
          (case res of
             None \<Rightarrow> Returns (Inr None)
           | Some envelope \<Rightarrow>
               obind (Returns (bound_attach E field request)) (\<lambda>attach_envelope.
               obind (Returns (rbind (binary_column E envelope ''result'')
                        (ok_or (runtime_error ''result envelope has no result column'')))) (\<lambda>outer.
               obind (map_binary outer (\<lambda>_ nested.
                        rewrite_nested E nested (seal_inner E seal nonce_of key auth field attach_envelope)))
                 (\<lambda>sealed_outer.
                   Returns (rbind (map_err (\<lambda>e. runtime_error (''rebuild sealed result: '' @ e))
                     (oe_try_new E (schema_fields envelope) [sealed_outer])) (\<lambda>b. Inr (Some b))))))))"

section \<open>What a value is bound to\<close>

lemma map_err_Inr: "map_err f r = Inr v \<longleftrightarrow> r = Inr v"
  by (cases r) simp_all

definition auth_of :: "auth_context \<Rightarrow> auth" where
  "auth_of auth = (if authenticated auth then Some (auth_domain auth, auth_principal auth) else None)"

lemma opaque_identity_tail_eq: "opaque_identity_tail auth = identity_tail (auth_of auth)"
  by (simp add: opaque_identity_tail_def identity_tail_def auth_of_def)

definition auth_nul_free :: "auth_context \<Rightarrow> bool" where
  "auth_nul_free auth \<longleftrightarrow> nul_free (auth_domain auth) \<and> nul_free (auth_principal auth)"

lemma anonymous_nul_free: "(0 :: byte) \<notin> set (as_bytes ''anonymous'')"
  by (simp add: as_bytes_zero)

lemma opaque_identity_tail_env:
  assumes "auth_nul_free a" "auth_nul_free b"
  shows "opaque_identity_tail a @ 0 # e = opaque_identity_tail b @ 0 # f \<longleftrightarrow> auth_of a = auth_of b \<and> e = f"
proof -
  have z: "0 \<notin> set (as_bytes (auth_domain a))" "0 \<notin> set (as_bytes (auth_principal a))"
    "0 \<notin> set (as_bytes (auth_domain b))" "0 \<notin> set (as_bytes (auth_principal b))"
    using assms by (simp_all add: auth_nul_free_def nul_free_def as_bytes_zero)
  show ?thesis
    using nul_split [OF z(1,3)] nul_split [OF z(2,4), of e f]
      nul_split [OF anonymous_nul_free anonymous_nul_free, of e f]
    by (cases "authenticated a"; cases "authenticated b") (auto simp: opaque_identity_tail_def auth_of_def)
qed

lemma transaction_aad_inject:
  assumes "auth_nul_free a" "auth_nul_free b"
  shows "transaction_aad a e = transaction_aad b f \<longleftrightarrow> auth_of a = auth_of b \<and> e = f"
  using opaque_identity_tail_env [OF assms] by (simp add: transaction_aad_def)

lemma attach_aad_inject:
  assumes "auth_nul_free a" "auth_nul_free b"
  shows "attach_aad a = attach_aad b \<longleftrightarrow> auth_of a = auth_of b"
proof -
  have "domain_nul_free (auth_of a)" "domain_nul_free (auth_of b)"
    using assms by (simp_all add: domain_nul_free_def auth_of_def auth_nul_free_def)
  then show ?thesis by (simp add: attach_aad_def opaque_identity_tail_eq identity_tail_inject)
qed

lemma sealed_opens_iff:
  assumes "aead_correct seal opn" "aead_authentic seal opn"
  shows "opn (seal n p k a v) k a' v = (if a = a' then Inr p else opn (seal n p k a v) k a' v)"
    and "a \<noteq> a' \<Longrightarrow> \<exists>e. opn (seal n p k a v) k a' v = Inl e"
  using aead_correctD [OF assms(1)] aead_other_aad [OF assms(2)] by auto

text \<open>C19: A sealed opaque value opens exactly for whom and with what it was sealed: an attach value for the
  same caller, a transaction value for the same caller beside the very attach envelope it was
  issued under. Every other combination gives one and the same refusal, so a caller learns nothing from
  it. (The caller's domain and principal hold no NUL character.)\<close>
theorem opaque_value_bound:
  assumes "aead_correct seal opn" "aead_authentic seal opn" "auth_nul_free auth" "auth_nul_free auth'"
  shows "open_attach opn key (op_seal_attach seal n key p auth) auth'
      = (if auth_of auth = auth_of auth' then Inr p else Inl (opaque_data_rejected ATTACH_FIELD))
    \<and> open_transaction opn key (seal_transaction seal n key p auth env) auth' env'
      = (if auth_of auth = auth_of auth' \<and> env = env' then Inr p
         else Inl (opaque_data_rejected TRANSACTION_FIELD))"
proof
  show "open_attach opn key (op_seal_attach seal n key p auth) auth'
      = (if auth_of auth = auth_of auth' then Inr p else Inl (opaque_data_rejected ATTACH_FIELD))"
  proof (cases "attach_aad auth = attach_aad auth'")
    case True
    then show ?thesis using attach_aad_inject [OF assms(3,4)] aead_correctD [OF assms(1)]
      by (simp add: open_attach_def op_seal_attach_def)
  next
    case False
    then obtain e where "opn (op_seal_attach seal n key p auth) key (attach_aad auth') ATTACH_ENVELOPE_VERSION = Inl e"
      using aead_other_aad [OF assms(2)] unfolding op_seal_attach_def by blast
    then show ?thesis using False attach_aad_inject [OF assms(3,4)] by (simp add: open_attach_def)
  qed
  show "open_transaction opn key (seal_transaction seal n key p auth env) auth' env'
      = (if auth_of auth = auth_of auth' \<and> env = env' then Inr p
         else Inl (opaque_data_rejected TRANSACTION_FIELD))"
  proof (cases "transaction_aad auth env = transaction_aad auth' env'")
    case True
    then show ?thesis
      using transaction_aad_inject [OF assms(3,4), of env env'] aead_correctD [OF assms(1)]
      by (simp add: open_transaction_def seal_transaction_def)
  next
    case False
    then obtain e where
      "opn (seal_transaction seal n key p auth env) key (transaction_aad auth' env') TRANSACTION_ENVELOPE_VERSION = Inl e"
      using aead_other_aad [OF assms(2)] unfolding seal_transaction_def by blast
    then show ?thesis
      using False transaction_aad_inject [OF assms(3,4), of env env'] by (simp add: open_transaction_def)
  qed
qed

definition alice :: auth_context where
  "alice = \<lparr>authenticated = True, auth_domain = ''bearer'', auth_principal = ''alice''\<rparr>"

definition mallory :: auth_context where
  "mallory = \<lparr>authenticated = True, auth_domain = ''bearer'', auth_principal = ''mallory''\<rparr>"

theorem opaque_value_bound_witness:
  "open_attach clear_open [1] (op_seal_attach clear_seal [9] [1] [42] alice) alice = Inr [42]
   \<and> open_attach clear_open [1] (op_seal_attach clear_seal [9] [1] [42] alice) mallory
       = Inl (opaque_data_rejected ATTACH_FIELD)"
proof -
  have f: "auth_nul_free alice" "auth_nul_free mallory"
    by (simp_all add: auth_nul_free_def nul_free_def alice_def mallory_def)
  show ?thesis
    using opaque_value_bound [OF clear_aead_correct clear_aead_authentic f(1) f(1), of "[1]" "[9]" "[42]"]
      opaque_value_bound [OF clear_aead_correct clear_aead_authentic f(1) f(2), of "[1]" "[9]" "[42]"]
    by (simp add: auth_of_def alice_def mallory_def)
qed

section \<open>What an opened request rests on\<close>

lemma obind_Ok: "obind x f = Returns (Inr y) \<longleftrightarrow> (\<exists>v. x = Returns (Inr v) \<and> f v = Returns (Inr y))"
  by (cases "(x, f)" rule: obind.cases) auto

lemma traverse_Ok: "traverse f xs = Returns (Inr ys) \<longleftrightarrow> list_all2 (\<lambda>x y. f x = Returns (Inr y)) xs ys"
  by (induction xs arbitrary: ys) (auto simp: obind_Ok list_all2_Cons1)

lemma map_binary_Ok:
  assumes "map_binary vals f = Returns (Inr out)" "row < array_len vals"
  shows "map_slot f vals row = Returns (Inr (slots out ! row))"
proof -
  have "list_all2 (\<lambda>x y. map_slot f vals x = Returns (Inr y)) [0..<array_len vals] (slots out)"
    using assms(1) by (auto simp: map_binary_def obind_Ok traverse_Ok)
  from list_all2_nthD [OF this, of row] assms(2) show ?thesis by simp
qed

text \<open>\<open>RecordBatch::try_new\<close> keeps the columns it is given.\<close>

definition keeps_columns :: "(field list \<Rightarrow> array list \<Rightarrow> string + record_batch) \<Rightarrow> bool" where
  "keeps_columns try_new \<longleftrightarrow> (\<forall>s cs b. try_new s cs = Inr b \<longrightarrow> columns b = cs)"

lemma open_batch_column:
  assumes "open_batch depth E opn key auth batch = Returns (Inr opened)" "keeps_columns (oe_try_new E)"
    and "i < length (schema_fields batch)" "length (columns batch) = length (schema_fields batch)"
    and "touches (field_name (schema_fields batch ! i))"
  obtains d a where "binary_column E batch ATTACH_FIELD = Inr a"
    "open_column E opn key auth (open_batch d E opn key auth) batch a
       (schema_fields batch ! i, columns batch ! i) = Returns (Inr (columns opened ! i))"
proof (cases depth)
  case (Suc d)
  have "list_ex (\<lambda>f. touches (field_name f)) (schema_fields batch)"
    using assms(3,5) by (auto simp: list_ex_iff)
  then obtain a cols where a: "binary_column E batch ATTACH_FIELD = Inr a"
    and t: "traverse (open_column E opn key auth (open_batch d E opn key auth) batch a)
        (zip (schema_fields batch) (columns batch)) = Returns (Inr cols)"
    and n: "map_err (\<lambda>e. runtime_error (''rebuild opened request: '' @ e)) (oe_try_new E (schema_fields batch) cols)
        = Inr opened"
    using assms(1) Suc by (auto simp: obind_Ok)
  have "columns opened = cols" using n assms(2) unfolding keeps_columns_def map_err_Inr by blast
  moreover have "list_all2 (\<lambda>x y. open_column E opn key auth (open_batch d E opn key auth) batch a x = Returns (Inr y))
      (zip (schema_fields batch) (columns batch)) cols"
    using t by (simp add: traverse_Ok)
  from list_all2_nthD [OF this, of i] have
    "open_column E opn key auth (open_batch d E opn key auth) batch a (schema_fields batch ! i, columns batch ! i)
       = Returns (Inr (cols ! i))"
    using assms(3,4) by simp
  ultimately show ?thesis using that a by blast
qed (use assms(1) in simp)

text \<open>C10: An opened request rests on this worker's own envelopes: every non-empty value of an opened attach
  column was sealed under the worker's key for the calling identity, every non-empty value of an opened
  transaction column for the calling identity beside the sealed attach of its own row, and the
  plaintexts are exactly what the dispatcher sees in their place.\<close>
theorem opened_request_authentic:
  assumes "aead_authentic seal opn" "keeps_columns (oe_try_new E)"
    and "open_batch depth E opn key auth batch = Returns (Inr opened)"
    and "length (columns batch) = length (schema_fields batch)" "i < length (schema_fields batch)"
    and "field_name (schema_fields batch ! i) = name" "name = ATTACH_FIELD \<or> name = TRANSACTION_FIELD"
    and "binary_column E batch name = Inr (Some vals)"
    and "row < array_len vals" "\<not> is_null vals row" "bytes_value vals row \<noteq> []"
  shows "\<exists>n p. slots (columns opened ! i) ! row = Some (SBytes p)
    \<and> (if name = ATTACH_FIELD then bytes_value vals row = op_seal_attach seal n key p auth
       else \<exists>attach. binary_column E batch ATTACH_FIELD = Inr (Some attach) \<and> \<not> is_null attach row
              \<and> bytes_value vals row = seal_transaction seal n key p auth (bytes_value attach row))"
proof -
  have ne: "TRANSACTION_FIELD \<noteq> ATTACH_FIELD" by (simp add: TRANSACTION_FIELD_def ATTACH_FIELD_def)
  have t: "touches (field_name (schema_fields batch ! i))" using assms(6,7) by (auto simp: touches_def)
  obtain d a where a: "binary_column E batch ATTACH_FIELD = Inr a"
    and col: "open_column E opn key auth (open_batch d E opn key auth) batch a
       (schema_fields batch ! i, columns batch ! i) = Returns (Inr (columns opened ! i))"
    by (rule open_batch_column [OF assms(3,2,5,4) t])
  show ?thesis
  proof (cases "name = ATTACH_FIELD")
    case True
    then have "map_binary vals (\<lambda>_ sealed. Returns (open_attach opn key sealed auth)) = Returns (Inr (columns opened ! i))"
      using col a assms(6,8) by (auto simp: open_column_def expect_def)
    from map_binary_Ok [OF this assms(9)] obtain p where
      p: "open_attach opn key (bytes_value vals row) auth = Inr p" "slots (columns opened ! i) ! row = Some (SBytes p)"
      using assms(10,11) by (auto simp: map_slot_def obind_Ok)
    from p(1) obtain n where "bytes_value vals row = op_seal_attach seal n key p auth"
      using aead_authenticD [OF assms(1)] unfolding open_attach_def map_err_Inr op_seal_attach_def by blast
    with p(2) True show ?thesis by auto
  next
    case False
    then have name: "name = TRANSACTION_FIELD" using assms(7) by simp
    have "map_binary vals (\<lambda>row sealed. Returns (rbind (attach_of_row a row) (\<lambda>attach.
        open_transaction opn key sealed auth attach))) = Returns (Inr (columns opened ! i))"
      using col assms(6,8) name ne by (auto simp: open_column_def expect_def)
    from map_binary_Ok [OF this assms(9)] obtain p where
      p: "rbind (attach_of_row a row) (\<lambda>attach. open_transaction opn key (bytes_value vals row) auth attach) = Inr p"
        "slots (columns opened ! i) ! row = Some (SBytes p)"
      using assms(10,11) by (auto simp: map_slot_def obind_Ok)
    from p(1) obtain arr where arr: "a = Some arr" "\<not> is_null arr row"
      "open_transaction opn key (bytes_value vals row) auth (bytes_value arr row) = Inr p"
      by (auto simp: rbind_eq_Inr_iff attach_of_row_def split: option.splits if_splits)
    from arr(3) obtain n where "bytes_value vals row = seal_transaction seal n key p auth (bytes_value arr row)"
      using aead_authenticD [OF assms(1)] unfolding open_transaction_def map_err_Inr seal_transaction_def by blast
    with p(2) name ne a arr(1,2) show ?thesis by auto
  qed
qed

text \<open>A batch of one attach column, for a type and slots.\<close>

definition attach_batch :: "data_type \<Rightarrow> scalar option list \<Rightarrow> record_batch" where
  "attach_batch t vs =
     \<lparr>schema_fields = [Field ATTACH_FIELD t True []], columns = [\<lparr>data_type_of = t, slots = vs\<rparr>], num_rows = length vs\<rparr>"

definition sample_opaque_env :: opaque_env where
  "sample_opaque_env = \<lparr>oe_cast = (\<lambda>a t. Inr (a\<lparr>data_type_of := t\<rparr>)), oe_read_batch = (\<lambda>_. Inl (runtime_error [])),
     oe_read_schema = (\<lambda>_. Inl (runtime_error [])), oe_write_batch = (\<lambda>_ _. Inl (runtime_error [])),
     oe_try_new = (\<lambda>s cs. if map field_type s = map data_type_of cs
        then Inr \<lparr>schema_fields = s, columns = cs, num_rows = (case cs of [] \<Rightarrow> 0 | c # _ \<Rightarrow> array_len c)\<rparr>
        else Inl ''column types must match schema types'')\<rparr>"

lemma attach_batch_column: "column_by_name (attach_batch t vs) ATTACH_FIELD = Some \<lparr>data_type_of = t, slots = vs\<rparr>"
  by (simp add: column_by_name_def attach_batch_def)

lemma attach_batch_touched: "list_ex (\<lambda>f. touches (field_name f)) (schema_fields (attach_batch t vs))"
  by (simp add: attach_batch_def touches_def)

definition sample_envelope :: bytes where
  "sample_envelope = op_seal_attach clear_seal [9] [1] [42] alice"

lemma sample_envelope_nonempty: "sample_envelope \<noteq> []"
  by (simp add: sample_envelope_def op_seal_attach_def clear_seal_def)

lemma sample_envelope_opens: "open_attach clear_open [1] sample_envelope alice = Inr [42]"
  using aead_correctD [OF clear_aead_correct]
  by (simp add: sample_envelope_def op_seal_attach_def open_attach_def)

lemma sample_opened:
  "open_batch 1 sample_opaque_env clear_open [1] alice (attach_batch Binary [Some (SBytes sample_envelope)])
   = Returns (Inr (attach_batch Binary [Some (SBytes [42])]))"
  using attach_batch_touched [of Binary "[Some (SBytes sample_envelope)]"]
    attach_batch_column [of Binary "[Some (SBytes sample_envelope)]"] sample_envelope_nonempty sample_envelope_opens
  by (simp add: binary_column_def downcast_def open_column_def expect_def map_binary_def map_slot_def array_len_def
      is_null_def bytes_value_def sample_opaque_env_def attach_batch_def One_nat_def)

theorem opened_request_authentic_witness:
  "\<exists>n p. slots (columns (attach_batch Binary [Some (SBytes [42])]) ! 0) ! 0 = Some (SBytes p)
    \<and> sample_envelope = op_seal_attach clear_seal n [1] p alice"
proof -
  let ?v = "\<lparr>data_type_of = Binary, slots = [Some (SBytes sample_envelope)]\<rparr>"
  let ?b = "attach_batch Binary [Some (SBytes sample_envelope)]"
  have k: "keeps_columns (oe_try_new sample_opaque_env)"
    by (simp add: keeps_columns_def sample_opaque_env_def)
  have c: "binary_column sample_opaque_env ?b ATTACH_FIELD = Inr (Some ?v)"
    by (simp add: binary_column_def attach_batch_column downcast_def)
  have "field_name (schema_fields ?b ! 0) = ATTACH_FIELD" "length (columns ?b) = length (schema_fields ?b)"
    "0 < length (schema_fields ?b)" by (simp_all add: attach_batch_def)
  from opened_request_authentic [OF clear_aead_authentic k sample_opened this(2,3,1) _ c, of 0]
  show ?thesis by (simp add: array_len_def is_null_def bytes_value_def sample_envelope_nonempty)
qed

text \<open>C38: A request whose attach column has Arrow's null type takes the worker down a panic instead of an error
  reply: the reader reports the column as absent, and the opener relies on it being there. This holds
  for every key, caller, environment and number of rows.\<close>
theorem null_typed_attach_panics:
  "open_batch (Suc depth) E opn key auth (attach_batch Null vs) = Panics"
  using attach_batch_touched [of Null vs] attach_batch_column [of Null vs]
  by (simp add: binary_column_def open_column_def expect_def attach_batch_def)

text \<open>A column of the wide binary type is cast for opening and then refused when the batch is rebuilt.\<close>

lemma large_binary_attach_refused:
  "open_batch 1 sample_opaque_env clear_open [1] alice (attach_batch LargeBinary [Some (SBytes sample_envelope)])
   = Returns (Inl (runtime_error ''rebuild opened request: column types must match schema types''))"
  using attach_batch_touched [of LargeBinary "[Some (SBytes sample_envelope)]"]
    attach_batch_column [of LargeBinary "[Some (SBytes sample_envelope)]"] sample_envelope_nonempty sample_envelope_opens
  by (simp add: binary_column_def downcast_def open_column_def expect_def map_binary_def map_slot_def array_len_def
      is_null_def bytes_value_def sample_opaque_env_def attach_batch_def One_nat_def)

end
