(* ===== verification/Sql_Tokens.thy ===== *)
theory Sql_Tokens
  imports Rust_Str
begin

text \<open>
  Tokens of the SQL recognizer, \<open>src/vgi/src/sql_expression.rs\<close>. A Rust \<open>char\<close> is the string of its
  UTF-8 bytes, and the scanner's position is the list of characters still to read. The Unicode
  tables behind \<open>is_alphabetic\<close> and \<open>is_numeric\<close> are parameters beyond ASCII.
\<close>

definition MAX_SQL :: nat where "MAX_SQL = 1024 * 1024"

datatype token =
    Ident string
  | Quoted string
  | Number string
  | Str
  | Op string
  | LParen
  | RParen
  | Comma
  | Dot

section \<open>Characters\<close>

text \<open>\<open>str::chars\<close> on UTF-8: a character is a byte and the continuation bytes after it.\<close>

fun str_chars :: "string \<Rightarrow> string list" where
  "str_chars [] = []"
| "str_chars (c # s) =
     (let k = takeWhile (\<lambda>d. 128 \<le> code d \<and> code d < 192) s
      in (c # k) # str_chars (drop (length k) s))"

record unicode =
  uni_alphabetic :: "string \<Rightarrow> bool"
  uni_numeric :: "string \<Rightarrow> bool"

definition is_ascii :: "string \<Rightarrow> bool" where
  "is_ascii c \<longleftrightarrow> length c = 1 \<and> code (hd c) < 128"

definition is_whitespace :: "string \<Rightarrow> bool" where
  "is_whitespace c \<longleftrightarrow> c \<in> set WHITE_SPACE"

definition c_digit :: "string \<Rightarrow> bool" where
  "c_digit c \<longleftrightarrow> is_ascii c \<and> is_ascii_digit (hd c)"

definition c_ascii_alphanumeric :: "string \<Rightarrow> bool" where
  "c_ascii_alphanumeric c \<longleftrightarrow> is_ascii c \<and> is_ascii_alphanumeric (hd c)"

definition is_alphabetic :: "unicode \<Rightarrow> string \<Rightarrow> bool" where
  "is_alphabetic u c \<longleftrightarrow>
     (if is_ascii c then is_ascii_lowercase (hd c) \<or> is_ascii_uppercase (hd c) else uni_alphabetic u c)"

definition is_alphanumeric :: "unicode \<Rightarrow> string \<Rightarrow> bool" where
  "is_alphanumeric u c \<longleftrightarrow>
     is_alphabetic u c \<or> (if is_ascii c then is_ascii_digit (hd c) else uni_numeric u c)"

section \<open>Scanning\<close>

text \<open>\<open>chars.get(i)\<close> against a predicate.\<close>

definition next_is :: "('a \<Rightarrow> bool) \<Rightarrow> 'a list \<Rightarrow> bool" where
  "next_is P cs \<longleftrightarrow> (case cs of [] \<Rightarrow> False | c # _ \<Rightarrow> P c)"

fun skip_comment :: "string list \<Rightarrow> string list option" where
  "skip_comment [] = None"
| "skip_comment (c # cs) =
     (if c = ''*'' \<and> next_is (\<lambda>d. d = ''/'') cs then Some (tl cs) else skip_comment cs)"

fun skip_quoted :: "string \<Rightarrow> string list \<Rightarrow> string + string list" where
  "skip_quoted q [] = Inl ''unterminated quoted text''"
| "skip_quoted q (c # cs) =
     (if c = q then (if next_is (\<lambda>d. d = q) cs then skip_quoted q (tl cs) else Inr cs)
      else if c = [CHR 0x5C] \<and> q = [CHR 0x27] then skip_quoted q (tl cs)
      else skip_quoted q cs)"

text \<open>\<open>raw.replace\<close> of a doubled double quote by a single one.\<close>

fun undouble :: "string list \<Rightarrow> string list" where
  "undouble (c # d # cs) =
     (if c = [CHR 0x22] \<and> d = [CHR 0x22] then c # undouble cs else c # undouble (d # cs))"
| "undouble cs = cs"

definition number_digit :: "string \<Rightarrow> bool" where
  "number_digit c \<longleftrightarrow> c_digit c \<or> c = ''_''"

definition after_exponent :: "string list \<Rightarrow> string list" where
  "after_exponent cs =
     (if next_is (\<lambda>c. c \<in> {''e'', ''E''}) cs
      then let j = (if next_is (\<lambda>c. c \<in> {''+'', ''-''}) (tl cs) then tl (tl cs) else tl cs)
           in if next_is c_digit j then dropWhile c_digit j else cs
      else cs)"

definition after_number :: "string list \<Rightarrow> string list" where
  "after_number cs =
     (if next_is (\<lambda>c. c = ''0'') cs \<and> next_is (\<lambda>c. c \<in> {''x'', ''X'', ''b'', ''B''}) (tl cs)
      then dropWhile (\<lambda>c. c_ascii_alphanumeric c \<or> c = ''_'') (tl (tl cs))
      else let r = dropWhile number_digit cs;
               r = (if next_is (\<lambda>c. c = ''.'') r then dropWhile number_digit (tl r) else r)
           in after_exponent r)"

definition after_word :: "unicode \<Rightarrow> string list \<Rightarrow> string list" where
  "after_word u = dropWhile (\<lambda>c. is_alphanumeric u c \<or> c = ''_'' \<or> c = ''$'')"

text \<open>The characters between two positions of the scan.\<close>

definition slice :: "string list \<Rightarrow> string list \<Rightarrow> string list" where
  "slice cs rest = take (length cs - length rest) cs"

definition OPERATOR_CHARS :: "string list" where
  "OPERATOR_CHARS =
     [''<'', ''>'', ''='', ''!'', ''|'', '':'', ''+'', ''-'', ''*'', ''/'', ''%'', ''^'', ''~'', ''&'', ''#'',
      ''@'', ''?'', ''['', '']'', ''{'', ''}'', '';'']"

definition TWO_CHAR_OPERATORS :: "string list" where
  "TWO_CHAR_OPERATORS =
     [''<='', ''>='', ''<>'', ''!='', ''=='', ''||'', ''::'', ''//'', ''**'', '':='', ''=>'', ''->'', ''<<'',
      ''>>'', ''!~'', ''~~'', ''^@'']"

definition punctuation :: "string \<Rightarrow> string list \<Rightarrow> string + token \<times> string list" where
  "punctuation c cs =
     (if c = ''('' then Inr (LParen, cs)
      else if c = '')'' then Inr (RParen, cs)
      else if c = '','' then Inr (Comma, cs)
      else if c = ''.'' then Inr (Dot, cs)
      else if c \<in> set OPERATOR_CHARS
      then let two = c @ (case cs of [] \<Rightarrow> '' '' | d # _ \<Rightarrow> d)
           in if two \<in> set TWO_CHAR_OPERATORS then Inr (Op two, tl cs) else Inr (Op c, cs)
      else Inl (''unexpected character '' @ [CHR 0x27] @ c @ [CHR 0x27]))"

text \<open>One turn of the loop: the token it pushes, if any, and the characters after it.\<close>

definition scan :: "unicode \<Rightarrow> string \<Rightarrow> string list \<Rightarrow> string + token option \<times> string list" where
  "scan u c cs =
     (if is_whitespace c then Inr (None, cs)
      else if c = ''-'' \<and> next_is (\<lambda>d. d = ''-'') cs then Inr (None, dropWhile (\<lambda>d. d \<noteq> [CHR 0x0A]) cs)
      else if c = ''/'' \<and> next_is (\<lambda>d. d = ''*'') cs
      then (case skip_comment (tl cs) of
              None \<Rightarrow> Inl ''unterminated comment''
            | Some r \<Rightarrow> Inr (None, r))
      else if c_digit c \<or> c = ''.'' \<and> next_is c_digit cs
      then let r = after_number (c # cs) in Inr (Some (Number (concat (slice (c # cs) r))), r)
      else if is_alphabetic u c \<or> c = ''_''
      then let r = after_word u (c # cs); word = concat (slice (c # cs) r)
           in if (word = ''E'' \<or> word = ''e'') \<and> next_is (\<lambda>d. d = [CHR 0x27]) r
              then rbind (skip_quoted [CHR 0x27] (tl r)) (\<lambda>r. Inr (Some Str, r))
              else Inr (Some (Ident word), r)
      else if c = [CHR 0x22]
      then rbind (skip_quoted [CHR 0x22] cs) (\<lambda>r.
           Inr (Some (Quoted (concat (undouble (butlast (slice cs r))))), r))
      else if c = [CHR 0x27]
      then rbind (skip_quoted [CHR 0x27] cs) (\<lambda>r. Inr (Some Str, r))
      else rbind (punctuation c cs) (\<lambda>(t, r). Inr (Some t, r)))"

lemma skip_comment_length: "skip_comment cs = Some r \<Longrightarrow> length r \<le> length cs"
  by (induction cs rule: skip_comment.induct) (auto split: if_splits)

lemma skip_quoted_length: "skip_quoted q cs = Inr r \<Longrightarrow> length r \<le> length cs"
  by (induction q cs rule: skip_quoted.induct) (auto split: if_splits)

lemma after_exponent_length: "length (after_exponent cs) \<le> length cs"
proof -
  have "length (dropWhile c_digit (tl cs)) \<le> length cs" "length (dropWhile c_digit (tl (tl cs))) \<le> length cs"
    using length_dropWhile_le[of c_digit "tl cs"] length_dropWhile_le[of c_digit "tl (tl cs)"] by simp_all
  then show ?thesis by (simp add: after_exponent_def Let_def)
qed

lemma after_number_length:
  assumes "c_digit c \<or> c = ''.''"
  shows "length (after_number (c # cs)) \<le> length cs"
proof -
  define r where "r = dropWhile number_digit (c # cs)"
  define s where "s = (if next_is (\<lambda>c. c = ''.'') r then dropWhile number_digit (tl r) else r)"
  have a: "length (dropWhile P (tl xs)) \<le> length xs - 1" for P :: "string \<Rightarrow> bool" and xs
    using length_dropWhile_le[of P "tl xs"] by simp
  have "length s \<le> length cs"
  proof (cases "c_digit c")
    case True
    then have "r = dropWhile number_digit cs" by (simp add: r_def number_digit_def)
    then show ?thesis using length_dropWhile_le[of number_digit cs] a[of number_digit r] by (auto simp: s_def)
  next
    case False
    then have "r = c # cs" "c = ''.''" using assms by (auto simp: r_def number_digit_def)
    then show ?thesis using length_dropWhile_le[of number_digit cs] by (simp add: s_def next_is_def)
  qed
  then have "length (after_exponent s) \<le> length cs" using after_exponent_length[of s] by linarith
  moreover have "length (dropWhile P (tl (tl (c # cs)))) \<le> length cs" for P :: "string \<Rightarrow> bool"
    using length_dropWhile_le[of P "tl cs"] by simp
  ultimately show ?thesis
    unfolding after_number_def Let_def r_def[symmetric] s_def[symmetric] by simp
qed

lemma after_word_length:
  assumes "is_alphabetic u c \<or> c = ''_''"
  shows "length (after_word u (c # cs)) \<le> length cs"
  using assms length_dropWhile_le by (auto simp: after_word_def is_alphanumeric_def)

lemma punctuation_length: "punctuation c cs = Inr (t, r) \<Longrightarrow> length r \<le> length cs"
  by (auto simp: punctuation_def Let_def split: if_splits)

text \<open>Every turn consumes its first character, so the scan ends.\<close>

lemma scan_length: "scan u c cs = Inr (t, r) \<Longrightarrow> length r \<le> length cs"
  unfolding scan_def Let_def
  using after_number_length[of c cs] after_word_length[of u c cs] length_dropWhile_le[of "\<lambda>d. d \<noteq> [CHR 0x0A]" cs]
  by (auto simp: result_simps dest!: skip_comment_length skip_quoted_length punctuation_length
      split: if_splits option.splits)

function tokenize_from :: "unicode \<Rightarrow> string list \<Rightarrow> string + token list" where
  "tokenize_from u [] = Inr []"
| "tokenize_from u (c # cs) =
     (case scan u c cs of
        Inl e \<Rightarrow> Inl e
      | Inr (t, r) \<Rightarrow>
          rbind (tokenize_from u r) (\<lambda>ts. Inr (case t of None \<Rightarrow> ts | Some t \<Rightarrow> t # ts)))"
  by pat_completeness auto
termination
  by (relation "measure (\<lambda>(u, cs). length cs)") (auto dest: scan_length)

definition tokenize :: "unicode \<Rightarrow> string \<Rightarrow> string + token list" where
  "tokenize u sql = tokenize_from u (str_chars sql)"

end
