(* ===== verification/Sql_Parser.thy ===== *)
theory Sql_Parser
  imports Sql_Tokens
begin

text \<open>
  The parser of the SQL recognizer, \<open>src/vgi/src/sql_expression.rs\<close>: one definition per precedence
  level, over the tokens, the position and the nesting depth. The recursion from \<open>primary\<close> back to
  \<open>expression\<close> is by a count of nested calls and each loop by a count of turns, and running out of
  either is \<open>Fuel\<close>. The counts come from the code's own depth limit and from the tokens left, and
  \<open>Fuel\<close> is never the outcome of \<open>parse\<close>.
\<close>

definition MAX_DEPTH :: nat where "MAX_DEPTH = 64"

datatype sql_literal =
    NullLit
  | BooleanLit
  | IntegerLit
  | OtherNumericLit
  | VarcharLit

datatype expr =
    Literal sql_literal
  | Column "string list"
  | Cast bool bool string expr
  | Compare expr expr
  | Conjunction "expr list"
  | Not expr
  | IsNull expr
  | Coalesce "expr list"
  | Function string bool "expr list" bool
  | Unsupported string

record parser =
  tokens :: "token list"
  pos :: nat
  depth :: nat

datatype stop = Fuel | Fail string

type_synonym 'a parsed = "stop + 'a \<times> parser"

section \<open>Reading tokens\<close>

definition keyword :: "token option \<Rightarrow> string \<Rightarrow> bool" where
  "keyword t word \<longleftrightarrow> (case t of Some (Ident w) \<Rightarrow> eq_ignore_ascii_case w word | _ \<Rightarrow> False)"

definition peek_at :: "nat \<Rightarrow> parser \<Rightarrow> token option" where
  "peek_at offset p = (if pos p + offset < length (tokens p) then Some (tokens p ! (pos p + offset)) else None)"

definition peek :: "parser \<Rightarrow> token option" where
  "peek p = peek_at 0 p"

definition advance :: "parser \<Rightarrow> parser" where
  "advance p = p\<lparr>pos := pos p + 1\<rparr>"

definition bump :: "parser \<Rightarrow> token option \<times> parser" where
  "bump p = (peek p, advance p)"

definition is_op :: "string \<Rightarrow> parser \<Rightarrow> bool" where
  "is_op op p \<longleftrightarrow> peek p = Some (Op op)"

text \<open>The parser after the keyword, when it is next.\<close>

definition eat_keyword :: "string \<Rightarrow> parser \<Rightarrow> parser option" where
  "eat_keyword word p = (if keyword (peek p) word then Some (advance p) else None)"

definition debug_token :: "token \<Rightarrow> string" where
  "debug_token t =
     (case t of
        Ident s \<Rightarrow> ''Ident('' @ debug_str s @ '')''
      | Quoted s \<Rightarrow> ''Quoted('' @ debug_str s @ '')''
      | Number s \<Rightarrow> ''Number('' @ debug_str s @ '')''
      | Str \<Rightarrow> ''Str''
      | Op s \<Rightarrow> ''Op('' @ debug_str s @ '')''
      | LParen \<Rightarrow> ''LParen''
      | RParen \<Rightarrow> ''RParen''
      | Comma \<Rightarrow> ''Comma''
      | Dot \<Rightarrow> ''Dot'')"

definition expect :: "token \<Rightarrow> parser \<Rightarrow> stop + parser" where
  "expect t p = (if peek p = Some t then Inr (advance p) else Inl (Fail (''expected '' @ debug_token t)))"

definition enter :: "parser \<Rightarrow> stop + parser" where
  "enter p =
     (let q = p\<lparr>depth := depth p + 1\<rparr>
      in if depth q > MAX_DEPTH * 4 then Inl (Fail ''expression nesting is too deep'') else Inr q)"

text \<open>Every \<open>leave\<close> follows an \<open>enter\<close>, so the depth it takes one from is positive.\<close>

definition leave :: "parser \<Rightarrow> parser" where
  "leave p = p\<lparr>depth := depth p - 1\<rparr>"

text \<open>The tokens left, and the parser moved to a suffix of them.\<close>

definition remaining :: "parser \<Rightarrow> token list" where
  "remaining p = drop (pos p) (tokens p)"

definition seek :: "token list \<Rightarrow> parser \<Rightarrow> parser" where
  "seek r p = p\<lparr>pos := pos p + (length (remaining p) - length r)\<rparr>"

abbreviation turns :: "parser \<Rightarrow> nat" where
  "turns p \<equiv> Suc (length (remaining p))"

definition name_token :: "token \<Rightarrow> string option" where
  "name_token t = (case t of Ident w \<Rightarrow> Some w | Quoted w \<Rightarrow> Some w | _ \<Rightarrow> None)"

section \<open>Literals and types\<close>

definition function_expr :: "string \<Rightarrow> expr list \<Rightarrow> expr" where
  "function_expr name args = Function name False args False"

definition digit_value :: "char \<Rightarrow> nat option" where
  "digit_value c =
     (if is_ascii_digit c then Some (code c - 48)
      else if is_ascii_lowercase c then Some (code c - 87)
      else if is_ascii_uppercase c then Some (code c - 55)
      else None)"

text \<open>\<open>i64::from_str_radix\<close>: an optional sign, at least one digit below the radix, in range.\<close>

definition radix_digits :: "nat \<Rightarrow> string \<Rightarrow> nat option" where
  "radix_digits radix s =
     (if s \<noteq> [] \<and> list_all (\<lambda>c. \<exists>d \<in> set_option (digit_value c). d < radix) s
      then Some (foldl (\<lambda>n c. n * radix + the (digit_value c)) 0 s)
      else None)"

definition i64_from_str_radix :: "nat \<Rightarrow> string \<Rightarrow> int option" where
  "i64_from_str_radix radix s =
     (let v = (case s of
                 [] \<Rightarrow> None
               | c # cs \<Rightarrow>
                   if c = CHR ''-'' then map_option (\<lambda>n. - int n) (radix_digits radix cs)
                   else if c = CHR ''+'' then map_option int (radix_digits radix cs)
                   else map_option int (radix_digits radix s))
      in (case v of None \<Rightarrow> None | Some i \<Rightarrow> if i64_range i then Some i else None))"

definition number :: "string \<Rightarrow> sql_literal" where
  "number text =
     (let digits = filter (\<lambda>c. c \<noteq> CHR ''_'') text;
          lower = map to_ascii_lowercase digits;
          integer =
            (case strip_prefix ''0x'' lower of
               Some hex \<Rightarrow> i64_from_str_radix 16 hex \<noteq> None
             | None \<Rightarrow>
                 (case strip_prefix ''0b'' lower of
                    Some bin \<Rightarrow> i64_from_str_radix 2 bin \<noteq> None
                  | None \<Rightarrow>
                      if list_ex (\<lambda>c. c = CHR ''.'' \<or> c = CHR ''e'') lower then False
                      else parse_i64 digits \<noteq> None))
      in if integer then IntegerLit else OtherNumericLit)"

text \<open>The qualified name of a type: name tokens separated by dots.\<close>

fun type_parts :: "token list \<Rightarrow> (string list \<times> token list) option" where
  "type_parts [] = None"
| "type_parts (t # ts) =
     (case name_token t of
        None \<Rightarrow> None
      | Some w \<Rightarrow>
          (case ts of
             Dot # us \<Rightarrow> map_option (\<lambda>(ws, r). (w # ws, r)) (type_parts us)
           | _ \<Rightarrow> Some ([w], ts)))"

fun skip_modifier :: "nat \<Rightarrow> token list \<Rightarrow> token list option" where
  "skip_modifier 0 ts = Some ts"
| "skip_modifier (Suc d) [] = None"
| "skip_modifier (Suc d) (t # ts) =
     (if t = LParen then skip_modifier (Suc (Suc d)) ts
      else if t = RParen then skip_modifier d ts
      else skip_modifier (Suc d) ts)"

fun skip_array :: "token list \<Rightarrow> token list option" where
  "skip_array [] = None"
| "skip_array (t # ts) = (if t = Op '']'' then Some ts else skip_array ts)"

definition second_word :: "string \<Rightarrow> string \<Rightarrow> string \<times> parser \<Rightarrow> string \<times> parser" where
  "second_word first_word word np =
     (case np of (name, p) \<Rightarrow>
        if name = first_word then
          (case eat_keyword word p of
             Some q \<Rightarrow> (first_word @ '' '' @ word, q)
           | None \<Rightarrow> (name, p))
        else (name, p))"

definition type_name :: "parser \<Rightarrow> (string \<times> bool) parsed" where
  "type_name p =
     (case type_parts (remaining p) of
        None \<Rightarrow> Inl (Fail ''expected a type name'')
      | Some (parts, r) \<Rightarrow>
          (let (name, p) =
             second_word ''CHARACTER'' ''VARYING'' (second_word ''DOUBLE'' ''PRECISION''
               (map to_ascii_uppercase (last parts), seek r p))
           in rbind
                (if peek p = Some LParen then
                   (case skip_modifier 1 (remaining (advance p)) of
                      None \<Rightarrow> Inl (Fail ''unterminated type modifier'')
                    | Some r \<Rightarrow> Inr (seek r p))
                 else Inr p)
                (\<lambda>p.
                  if is_op ''['' p then
                    (case skip_array (remaining p) of
                       None \<Rightarrow> Inl (Fail ''unterminated array type'')
                     | Some r \<Rightarrow> Inr ((name @ ''[]'', length parts > 1), seek r p))
                  else Inr ((name, length parts > 1), p))))"

section \<open>Names and calls\<close>

text \<open>The dotted rest of a name; a star ends it with nothing.\<close>

fun name_parts :: "token list \<Rightarrow> stop + string list option \<times> token list" where
  "name_parts (Dot # t # ts) =
     (case name_token t of
        Some w \<Rightarrow> rbind (name_parts ts) (\<lambda>(ws, r). Inr (map_option (\<lambda>ws. w # ws) ws, r))
      | None \<Rightarrow> if t = Op ''*'' then Inr (None, ts) else Inl (Fail (''expected a name after '' @ [CHR 0x27, CHR ''.'', CHR 0x27])))"
| "name_parts [Dot] = Inl (Fail (''expected a name after '' @ [CHR 0x27, CHR ''.'', CHR 0x27]))"
| "name_parts ts = Inr (Some [], ts)"

text \<open>A named argument's name and arrow, and the rest of an \<open>ORDER\<close> clause.\<close>

definition skip_argument_name :: "parser \<Rightarrow> bool \<times> parser" where
  "skip_argument_name p =
     (if (\<exists>t \<in> set_option (peek p). name_token t \<noteq> None)
         \<and> (peek_at 1 p = Some (Op '':='') \<or> peek_at 1 p = Some (Op ''=>''))
      then (True, advance (advance p)) else (False, p))"

definition skip_order :: "parser \<Rightarrow> bool \<times> parser" where
  "skip_order p =
     (case eat_keyword ''ORDER'' p of
        None \<Rightarrow> (False, p)
      | Some q \<Rightarrow> (True, seek (dropWhile (\<lambda>t. t \<noteq> RParen) (remaining q)) q))"

fun call_args :: "(parser \<Rightarrow> expr parsed) \<Rightarrow> nat \<Rightarrow> expr list \<Rightarrow> bool \<Rightarrow> parser \<Rightarrow> (expr list \<times> bool) parsed" where
  "call_args expression 0 args decorated p = Inl Fuel"
| "call_args expression (Suc n) args decorated p =
     (let (named, p) = skip_argument_name p
      in rbind (expression p) (\<lambda>(e, p).
         let (ordered, p) = skip_order p; args = args @ [e]; decorated = (decorated \<or> named \<or> ordered)
         in (case bump p of
               (Some Comma, p) \<Rightarrow> call_args expression n args decorated p
             | (Some RParen, p) \<Rightarrow> Inr ((args, decorated), p)
             | _ \<Rightarrow> Inl (Fail (''expected '' @ [CHR 0x27, CHR '','', CHR 0x27] @ '' or ''
                                @ [CHR 0x27, CHR '')'', CHR 0x27] @ '' in argument list'')))))"

definition call_list :: "(parser \<Rightarrow> expr parsed) \<Rightarrow> parser \<Rightarrow> (expr list \<times> bool) parsed" where
  "call_list expression p =
     (let (decorated, p) =
        (case eat_keyword ''DISTINCT'' p of
           Some q \<Rightarrow> (True, q)
         | None \<Rightarrow> (case eat_keyword ''ALL'' p of Some q \<Rightarrow> (True, q) | None \<Rightarrow> (False, p)))
      in if peek p = Some RParen then Inr (([], decorated), advance p)
         else if is_op ''*'' p then rbind (expect RParen (advance p)) (\<lambda>p. Inr (([], True), p))
         else call_args expression (turns p) [] decorated p)"

definition name_tail :: "(parser \<Rightarrow> expr parsed) \<Rightarrow> string \<Rightarrow> parser \<Rightarrow> expr parsed" where
  "name_tail expression first p =
     rbind (name_parts (remaining p)) (\<lambda>(tail, r).
     let p = seek r p
     in (case tail of
           None \<Rightarrow> Inr (Unsupported ''star'', p)
         | Some ws \<Rightarrow>
             (let parts = first # ws
              in if peek p \<noteq> Some LParen then Inr (Column parts, p)
                 else rbind (call_list expression (advance p)) (\<lambda>((args, decorated), p).
                      if keyword (peek p) ''FILTER'' \<or> keyword (peek p) ''OVER'' \<or> keyword (peek p) ''WITHIN''
                      then Inr (Unsupported ''aggregate or window call'', p)
                      else let name = last parts; parts = butlast parts
                           in if eq_ignore_ascii_case name ''coalesce'' \<and> parts = [] \<and> \<not> decorated
                              then Inr (Coalesce args, p)
                              else Inr (Function name (parts \<noteq> []) args decorated, p)))))"

section \<open>Primary expressions\<close>

fun row_rest :: "(parser \<Rightarrow> expr parsed) \<Rightarrow> nat \<Rightarrow> parser \<Rightarrow> stop + parser" where
  "row_rest expression 0 p = Inl Fuel"
| "row_rest expression (Suc n) p =
     (if peek p = Some Comma
      then rbind (expression (advance p)) (\<lambda>(_, q). row_rest expression n q)
      else Inr p)"

definition parenthesized :: "(parser \<Rightarrow> expr parsed) \<Rightarrow> parser \<Rightarrow> expr parsed" where
  "parenthesized expression p =
     (if keyword (peek p) ''SELECT'' \<or> keyword (peek p) ''WITH'' then Inr (Unsupported ''subquery'', p)
      else rbind (expression p) (\<lambda>(first, p).
           if peek p = Some Comma
           then rbind (row_rest expression (turns p) p) (\<lambda>p.
                rbind (expect RParen p) (\<lambda>p. Inr (Unsupported ''row constructor'', p)))
           else rbind (expect RParen p) (\<lambda>p. Inr (first, p))))"

definition cast_call :: "(parser \<Rightarrow> expr parsed) \<Rightarrow> bool \<Rightarrow> parser \<Rightarrow> expr parsed" where
  "cast_call expression try_cast p =
     rbind (expression p) (\<lambda>(child, p).
     case eat_keyword ''AS'' p of
       None \<Rightarrow> Inl (Fail ''expected AS in CAST'')
     | Some p \<Rightarrow>
         rbind (type_name p) (\<lambda>((name, qualified), p).
         rbind (expect RParen p) (\<lambda>p.
         Inr (Cast try_cast qualified name child, p))))"

definition word_primary :: "(parser \<Rightarrow> expr parsed) \<Rightarrow> string \<Rightarrow> parser \<Rightarrow> expr parsed" where
  "word_primary expression word p =
     (let upper = map to_ascii_uppercase word
      in if upper = ''NULL'' then Inr (Literal NullLit, p)
         else if upper \<in> {''TRUE'', ''FALSE''} then Inr (Literal BooleanLit, p)
         else if upper \<in> {''CASE'', ''EXISTS'', ''ARRAY'', ''INTERVAL'', ''SELECT''} then Inr (Unsupported upper, p)
         else if upper \<in> {''CAST'', ''TRY_CAST''} \<and> peek p = Some LParen
         then cast_call expression (upper = ''TRY_CAST'') (advance p)
         else if peek p = Some Str then Inr (Unsupported ''typed literal'', advance p)
         else name_tail expression word p)"

definition primary :: "(parser \<Rightarrow> expr parsed) \<Rightarrow> parser \<Rightarrow> expr parsed" where
  "primary expression p =
     (let (t, p) = bump p
      in (case t of
            None \<Rightarrow> Inl (Fail ''unexpected end of expression'')
          | Some (Number text) \<Rightarrow> Inr (Literal (number text), p)
          | Some Str \<Rightarrow> Inr (Literal VarcharLit, p)
          | Some LParen \<Rightarrow> parenthesized expression p
          | Some (Quoted name) \<Rightarrow> name_tail expression name p
          | Some (Ident word) \<Rightarrow> word_primary expression word p
          | Some other \<Rightarrow> Inl (Fail (''unexpected token '' @ debug_token other))))"

section \<open>Precedence levels\<close>

fun cast_loop :: "nat \<Rightarrow> expr \<Rightarrow> parser \<Rightarrow> expr parsed" where
  "cast_loop 0 e p = Inl Fuel"
| "cast_loop (Suc n) e p =
     (if is_op ''::'' p
      then rbind (type_name (advance p)) (\<lambda>((name, qualified), q). cast_loop n (Cast False qualified name e) q)
      else Inr (e, p))"

definition postfix :: "(parser \<Rightarrow> expr parsed) \<Rightarrow> parser \<Rightarrow> expr parsed" where
  "postfix expression p =
     rbind (primary expression p) (\<lambda>(e, p).
     rbind (cast_loop (turns p) e p) (\<lambda>(e, p).
     if is_op ''['' p then Inr (Unsupported ''subscript'', p) else Inr (e, p)))"

fun unary_loop :: "(parser \<Rightarrow> expr parsed) \<Rightarrow> nat \<Rightarrow> parser \<Rightarrow> expr parsed" where
  "unary_loop expression 0 p = Inl Fuel"
| "unary_loop expression (Suc n) p =
     (if is_op ''-'' p \<or> is_op ''+'' p
      then let negative = is_op ''-'' p
           in rbind (enter (advance p)) (\<lambda>q.
              rbind (unary_loop expression n q) (\<lambda>(inner, q).
              Inr (if inner \<in> {Literal IntegerLit, Literal OtherNumericLit} then inner
                   else function_expr (if negative then ''-'' else ''+'') [inner], leave q)))
      else postfix expression p)"

definition unary :: "(parser \<Rightarrow> expr parsed) \<Rightarrow> parser \<Rightarrow> expr parsed" where
  "unary expression p = unary_loop expression (turns p) p"

text \<open>Left-associative operators over one operand level: the loop of \<open>power\<close> to \<open>concat\<close>.\<close>

fun op_loop ::
  "(string \<Rightarrow> bool) \<Rightarrow> (string \<Rightarrow> expr \<Rightarrow> expr \<Rightarrow> expr) \<Rightarrow> (parser \<Rightarrow> expr parsed) \<Rightarrow> nat \<Rightarrow> expr
   \<Rightarrow> parser \<Rightarrow> expr parsed" where
  "op_loop level build operand 0 left p = Inl Fuel"
| "op_loop level build operand (Suc n) left p =
     (case peek p of
        Some (Op op) \<Rightarrow>
          if level op
          then rbind (operand (advance p)) (\<lambda>(right, q). op_loop level build operand n (build op left right) q)
          else Inr (left, p)
      | _ \<Rightarrow> Inr (left, p))"

definition op_level ::
  "(string \<Rightarrow> bool) \<Rightarrow> (string \<Rightarrow> expr \<Rightarrow> expr \<Rightarrow> expr) \<Rightarrow> (parser \<Rightarrow> expr parsed) \<Rightarrow> parser \<Rightarrow> expr parsed" where
  "op_level level build operand p =
     rbind (operand p) (\<lambda>(left, p). op_loop level build operand (turns p) left p)"

definition power_level :: "(parser \<Rightarrow> expr parsed) \<Rightarrow> parser \<Rightarrow> expr parsed" where
  "power_level expression =
     op_level (\<lambda>op. op \<in> {''^'', ''**''}) (\<lambda>_ left right. function_expr ''^'' [left, right]) (unary expression)"

definition multiplicative :: "(parser \<Rightarrow> expr parsed) \<Rightarrow> parser \<Rightarrow> expr parsed" where
  "multiplicative expression =
     op_level (\<lambda>op. op \<in> {''*'', ''/'', ''%'', ''//''}) (\<lambda>op left right. function_expr op [left, right])
       (power_level expression)"

definition additive :: "(parser \<Rightarrow> expr parsed) \<Rightarrow> parser \<Rightarrow> expr parsed" where
  "additive expression =
     op_level (\<lambda>op. op \<in> {''+'', ''-''}) (\<lambda>op left right. function_expr op [left, right])
       (multiplicative expression)"

definition GENERIC_OPERATORS :: "string list" where
  "GENERIC_OPERATORS = [''->'', ''<<'', ''>>'', ''&'', ''#'', ''~'', ''!~'', ''~~'', ''^@'', ''@'', ''?'']"

definition concat_level :: "(parser \<Rightarrow> expr parsed) \<Rightarrow> parser \<Rightarrow> expr parsed" where
  "concat_level expression =
     op_level (\<lambda>op. op = ''||'' \<or> op \<in> set GENERIC_OPERATORS)
       (\<lambda>op left right. if op = ''||'' then function_expr ''||'' [left, right] else Unsupported (''operator '' @ op))
       (additive expression)"

definition PREDICATES :: "string list" where
  "PREDICATES = [''IN'', ''BETWEEN'', ''LIKE'', ''ILIKE'', ''SIMILAR'', ''GLOB'']"

definition predicate :: "token option \<Rightarrow> bool" where
  "predicate t \<longleftrightarrow> list_ex (keyword t) PREDICATES"

definition COMPARISONS :: "string list" where
  "COMPARISONS = [''='', ''=='', ''!='', ''<>'', ''<'', ''>'', ''<='', ''>='']"

definition comparison :: "(parser \<Rightarrow> expr parsed) \<Rightarrow> parser \<Rightarrow> expr parsed" where
  "comparison expression p =
     rbind (concat_level expression p) (\<lambda>(left, p).
     if predicate (peek p) \<or> keyword (peek p) ''NOT'' \<and> predicate (peek_at 1 p)
     then Inr (Unsupported ''IN / BETWEEN / LIKE predicate'', p)
     else (case peek p of
             Some (Op op) \<Rightarrow>
               if op \<in> set COMPARISONS
               then rbind (concat_level expression (advance p)) (\<lambda>(right, p). Inr (Compare left right, p))
               else Inr (left, p)
           | _ \<Rightarrow> Inr (left, p)))"

fun is_loop :: "nat \<Rightarrow> expr \<Rightarrow> parser \<Rightarrow> expr parsed" where
  "is_loop 0 left p = Inl Fuel"
| "is_loop (Suc n) left p =
     (case eat_keyword ''ISNULL'' p of
        Some p \<Rightarrow> is_loop n (IsNull left) p
      | None \<Rightarrow>
          (case eat_keyword ''NOTNULL'' p of
             Some p \<Rightarrow> is_loop n (Not (IsNull left)) p
           | None \<Rightarrow>
               (case eat_keyword ''IS'' p of
                  Some p \<Rightarrow>
                    (let (negated, p) = (case eat_keyword ''NOT'' p of Some p \<Rightarrow> (True, p) | None \<Rightarrow> (False, p))
                     in (case eat_keyword ''NULL'' p of
                           Some p \<Rightarrow> is_loop n (if negated then Not (IsNull left) else IsNull left) p
                         | None \<Rightarrow> Inr (Unsupported ''IS predicate'', snd (bump p))))
                | None \<Rightarrow> Inr (left, p))))"

definition is_level :: "(parser \<Rightarrow> expr parsed) \<Rightarrow> parser \<Rightarrow> expr parsed" where
  "is_level expression p = rbind (comparison expression p) (\<lambda>(left, p). is_loop (turns p) left p)"

fun not_loop :: "(parser \<Rightarrow> expr parsed) \<Rightarrow> nat \<Rightarrow> parser \<Rightarrow> expr parsed" where
  "not_loop expression 0 p = Inl Fuel"
| "not_loop expression (Suc n) p =
     (case eat_keyword ''NOT'' p of
        Some p \<Rightarrow>
          rbind (enter p) (\<lambda>p.
          rbind (not_loop expression n p) (\<lambda>(inner, p). Inr (Not inner, leave p)))
      | None \<Rightarrow> is_level expression p)"

definition not_level :: "(parser \<Rightarrow> expr parsed) \<Rightarrow> parser \<Rightarrow> expr parsed" where
  "not_level expression p = not_loop expression (turns p) p"

text \<open>The loop of \<open>and\<close> and \<open>or\<close>: operands separated by one keyword.\<close>

fun conjunction_loop :: "string \<Rightarrow> (parser \<Rightarrow> expr parsed) \<Rightarrow> nat \<Rightarrow> expr list \<Rightarrow> parser \<Rightarrow> expr list parsed" where
  "conjunction_loop word operand 0 parts p = Inl Fuel"
| "conjunction_loop word operand (Suc n) parts p =
     (case eat_keyword word p of
        Some p \<Rightarrow> rbind (operand p) (\<lambda>(e, p). conjunction_loop word operand n (parts @ [e]) p)
      | None \<Rightarrow> Inr (parts, p))"

definition conjunction_level :: "string \<Rightarrow> (parser \<Rightarrow> expr parsed) \<Rightarrow> parser \<Rightarrow> expr parsed" where
  "conjunction_level word operand p =
     rbind (operand p) (\<lambda>(e, p).
     rbind (conjunction_loop word operand (turns p) [e] p) (\<lambda>(parts, p).
     Inr (if length parts = 1 then last parts else Conjunction parts, p)))"

definition and_level :: "(parser \<Rightarrow> expr parsed) \<Rightarrow> parser \<Rightarrow> expr parsed" where
  "and_level expression = conjunction_level ''AND'' (not_level expression)"

definition or_level :: "(parser \<Rightarrow> expr parsed) \<Rightarrow> parser \<Rightarrow> expr parsed" where
  "or_level expression = conjunction_level ''OR'' (and_level expression)"

primrec expression :: "nat \<Rightarrow> parser \<Rightarrow> expr parsed" where
  "expression 0 p = Inl Fuel"
| "expression (Suc n) p =
     rbind (enter p) (\<lambda>p. rbind (or_level (expression n) p) (\<lambda>(e, p). Inr (e, leave p)))"

section \<open>Parsing a text\<close>

text \<open>One more nested call than the depth limit lets succeed.\<close>

definition NESTED_CALLS :: nat where "NESTED_CALLS = MAX_DEPTH * 4 + 1"

definition parse_tokens :: "token list \<Rightarrow> stop + expr" where
  "parse_tokens ts =
     rbind (expression NESTED_CALLS \<lparr>tokens = ts, pos = 0, depth = 0\<rparr>) (\<lambda>(e, p).
     if pos p \<noteq> length (tokens p)
     then Inl (Fail ''expected exactly one scalar expression without query clauses'')
     else Inr e)"

definition parse :: "unicode \<Rightarrow> string \<Rightarrow> stop + expr" where
  "parse u sql =
     (if sql = [] \<or> MAX_SQL < length sql \<or> CHR 0x00 \<in> set sql then Inl (Fail ''invalid SQL size or text'')
      else rbind (map_err Fail (tokenize u sql)) (\<lambda>ts.
           parse_tokens (rev (dropWhile (\<lambda>t. t = Op '';'') (rev ts)))))"

end
