(* ===== verification/Sql_Total.thy ===== *)
theory Sql_Total
  imports Sql_Parser
begin

text \<open>
  The parser of \<open>Sql_Parser\<close> always returns: no level runs out of turns or of nested calls, because each
  turn of a loop reads a token and each nested call is counted by the code's own depth limit.
\<close>

text \<open>
  What every level keeps: it does not run out, and where it succeeds it has moved forward over the
  same tokens at the same depth.
\<close>

definition moved :: "parser \<Rightarrow> parser \<Rightarrow> bool" where
  "moved p q \<longleftrightarrow> tokens q = tokens p \<and> depth q = depth p \<and> pos p \<le> pos q"

definition steady :: "parser \<Rightarrow> 'a parsed \<Rightarrow> bool" where
  "steady p r \<longleftrightarrow> r \<noteq> Inl Fuel \<and> (\<forall>x q. r = Inr (x, q) \<longrightarrow> moved p q)"

definition steady_from :: "nat \<Rightarrow> (parser \<Rightarrow> 'a parsed) \<Rightarrow> bool" where
  "steady_from d f \<longleftrightarrow> (\<forall>p. d \<le> depth p \<and> depth p \<le> MAX_DEPTH * 4 \<longrightarrow> steady p (f p))"

named_theorems moves

lemma moved_refl [moves, simp]: "moved p p"
  by (simp add: moved_def)

lemma moved_trans: "moved p q \<Longrightarrow> moved q r \<Longrightarrow> moved p r"
  by (auto simp: moved_def)

lemma moved_advance [moves]: "moved p (advance p)"
  by (simp add: moved_def advance_def)

lemma moved_seek [moves]: "moved p (seek r p)"
  by (simp add: moved_def seek_def)

lemma moved_depth: "moved p q \<Longrightarrow> depth q = depth p"
  by (simp add: moved_def)

lemma steady_Inr [simp]: "steady p (Inr (x, q)) \<longleftrightarrow> moved p q"
  by (simp add: steady_def)

lemma steady_Fail [simp]: "steady p (Inl (Fail e))"
  by (simp add: steady_def)

lemma steady_move: "moved p q \<Longrightarrow> steady q r \<Longrightarrow> steady p r"
  by (auto simp: steady_def intro: moved_trans)

lemma steady_bind:
  assumes "steady p r" "\<And>x q. r = Inr (x, q) \<Longrightarrow> moved p q \<Longrightarrow> steady q (f (x, q))"
  shows "steady p (rbind r f)"
proof (cases r)
  case (Inl e)
  then show ?thesis using assms(1) by (simp add: steady_def)
next
  case (Inr v)
  obtain x q where v: "v = (x, q)" by (cases v)
  then have "moved p q" using assms(1) Inr by simp
  then show ?thesis using assms(2)[of x q] Inr v by (auto intro: steady_move)
qed

abbreviation within :: "nat \<Rightarrow> parser \<Rightarrow> bool" where
  "within d p \<equiv> d \<le> depth p \<and> depth p \<le> MAX_DEPTH * 4"

lemma steady_fromD: "steady_from d f \<Longrightarrow> within d p \<Longrightarrow> steady p (f p)"
  by (simp add: steady_from_def)

text \<open>A turn of a loop that read a token leaves fewer tokens.\<close>

lemma peek_remaining: "peek p = Some t \<Longrightarrow> pos p < length (tokens p)"
  by (simp add: peek_def peek_at_def split: if_splits)

lemma turn_shorter:
  assumes "peek p = Some t" "moved (advance p) q"
  shows "length (remaining q) < length (remaining p)"
  using peek_remaining[OF assms(1)] assms(2) by (auto simp: moved_def advance_def remaining_def)

lemma eat_keyword_Some:
  "eat_keyword w p = Some q \<Longrightarrow> q = advance p \<and> (\<exists>t. peek p = Some t)"
  by (auto simp: eat_keyword_def keyword_def split: if_splits option.splits)

lemma steady_from_at: "steady_from d f \<Longrightarrow> within d p \<Longrightarrow> moved p q \<Longrightarrow> steady q (f q)"
  by (simp add: steady_from_def moved_def)

lemma steady_fromI: "(\<And>p. within d p \<Longrightarrow> steady p (f p)) \<Longrightarrow> steady_from d f"
  by (simp add: steady_from_def)

lemma moved_within: "moved p q \<Longrightarrow> within d q \<longleftrightarrow> within d p"
  by (simp add: moved_def)

lemma expect_moved: "expect t p = Inr q \<Longrightarrow> moved p q"
  by (auto simp: expect_def moves split: if_splits)

lemma expect_steady: "steady p (rbind (expect t p) (\<lambda>q. Inr (x, q)))"
  by (auto simp: expect_def moves)

text \<open>One turn of a loop: a token is read, then an operand, and fewer tokens are left.\<close>

lemma steady_turn:
  assumes "steady (advance p) r" "within d p" "peek p = Some t"
    "\<And>x q. within d q \<Longrightarrow> length (remaining q) < length (remaining p) \<Longrightarrow> steady q (f (x, q))"
  shows "steady p (rbind r f)"
proof (rule steady_move[OF moved_advance], rule steady_bind[OF assms(1)])
  fix x q assume m: "moved (advance p) q"
  then have "within d q" using assms(2) moved_within[OF moved_trans[OF moved_advance m]] by blast
  then show "steady q (f (x, q))" using assms(4) turn_shorter[OF assms(3) m] by blast
qed

lemma operand_advance: "steady_from d f \<Longrightarrow> within d p \<Longrightarrow> steady (advance p) (f (advance p))"
  by (erule (1) steady_from_at) (rule moved_advance)

lemma op_loop_steady:
  assumes "steady_from d operand" "within d p" "length (remaining p) < n"
  shows "steady p (op_loop level build operand n left p)"
  using assms(2,3)
proof (induction n arbitrary: left p)
  case (Suc n)
  have "steady p (rbind (operand (advance p)) (\<lambda>(right, q). op_loop level build operand n (build op left right) q))"
    if "peek p = Some (Op op)" for op
    by (rule steady_turn[OF operand_advance[OF assms(1) Suc.prems(1)] Suc.prems(1) that])
      (use Suc.IH Suc.prems(2) in auto)
  then show ?case by (simp split: option.split token.split)
qed simp

lemma op_level_steady:
  assumes "steady_from d operand"
  shows "steady_from d (op_level level build operand)"
proof (rule steady_fromI)
  fix p assume w: "within d p"
  show "steady p (op_level level build operand p)"
    unfolding op_level_def
  proof (rule steady_bind[OF steady_fromD[OF assms w]])
    fix x q assume "moved p q"
    then show "steady q (case (x, q) of (left, p) \<Rightarrow> op_loop level build operand (turns p) left p)"
      using op_loop_steady[OF assms, of q "turns q"] moved_within w by auto
  qed
qed

lemma conjunction_loop_steady:
  assumes "steady_from d operand" "within d p" "length (remaining p) < n"
  shows "steady p (conjunction_loop word operand n parts p)"
  using assms(2,3)
proof (induction n arbitrary: parts p)
  case (Suc n)
  have "steady p (rbind (operand (advance p)) (\<lambda>(e, r). conjunction_loop word operand n (parts @ [e]) r))"
    if "peek p = Some t" for t
    by (rule steady_turn[OF operand_advance[OF assms(1) Suc.prems(1)] Suc.prems(1) that])
      (use Suc.IH Suc.prems(2) in auto)
  then show ?case by (auto dest: eat_keyword_Some split: option.split)
qed simp

lemma conjunction_level_steady:
  assumes "steady_from d operand"
  shows "steady_from d (conjunction_level word operand)"
proof (rule steady_fromI)
  fix p assume w: "within d p"
  show "steady p (conjunction_level word operand p)"
    unfolding conjunction_level_def
  proof (rule steady_bind[OF steady_fromD[OF assms w]])
    fix x q assume "moved p q"
    then have "steady q (conjunction_loop word operand (turns q) [x] q)"
      using conjunction_loop_steady[OF assms, of q "turns q"] moved_within w by auto
    then show "steady q (case (x, q) of (e, p) \<Rightarrow>
        rbind (conjunction_loop word operand (turns p) [e] p) (\<lambda>(parts, p).
        Inr (if length parts = 1 then last parts else Conjunction parts, p)))"
      by (auto intro!: steady_bind)
  qed
qed

lemma second_word_moved: "second_word f w (n, p) = (m, q) \<Longrightarrow> moved p q"
  by (auto simp: second_word_def moves dest: eat_keyword_Some split: if_splits option.splits)

lemma type_name_steady: "steady p (type_name p)"
proof (cases "type_parts (remaining p)")
  case (Some v)
  obtain parts r where v: "v = (parts, r)" by (cases v)
  obtain m q where 1: "second_word ''DOUBLE'' ''PRECISION'' (map to_ascii_uppercase (last parts), seek r p) = (m, q)"
    by fastforce
  obtain name s where 2: "second_word ''CHARACTER'' ''VARYING'' (m, q) = (name, s)" by fastforce
  have "moved p s"
    using moved_trans[OF moved_trans[OF moved_seek second_word_moved[OF 1]] second_word_moved[OF 2]] .
  then have *: "moved p (seek r' s)" "moved p (seek r'' (seek r' s))" for r' r''
    using moved_trans moved_seek by blast+
  show ?thesis
    using Some v 1 2 * \<open>moved p s\<close> by (auto simp: type_name_def split: option.split)
qed (simp add: type_name_def)

lemma cast_loop_steady:
  "within 0 p \<Longrightarrow> length (remaining p) < n \<Longrightarrow> steady p (cast_loop n e p)"
proof (induction n arbitrary: e p)
  case (Suc n)
  have "steady p (rbind (type_name (advance p))
      (\<lambda>((name, qualified), q). cast_loop n (Cast False qualified name e) q))"
    if "peek p = Some t" for t
    by (rule steady_turn[OF type_name_steady Suc.prems(1) that]) (use Suc.IH Suc.prems(2) in auto)
  then show ?case by (auto simp: is_op_def)
qed simp

lemma eat_shorter:
  assumes "eat_keyword w p = Some q"
  shows "moved p q \<and> length (remaining q) < length (remaining p)"
  using eat_keyword_Some[OF assms] turn_shorter moved_advance moved_refl by metis

lemma is_loop_steady: "length (remaining p) < n \<Longrightarrow> steady p (is_loop n left p)"
proof (induction n arbitrary: left p)
  case (Suc n)
  have loop: "steady p (is_loop n e q)" if "moved p q" "length (remaining q) < length (remaining p)" for e q
    by (rule steady_move[OF that(1) Suc.IH]) (use that(2) Suc.prems in linarith)
  have eat: "steady p (is_loop n e q)" if "eat_keyword w p = Some q" for w e q
    using loop eat_shorter[OF that] by blast
  have eat2: "steady p (is_loop n e r)" if "eat_keyword v p = Some q" "eat_keyword w q = Some r" for v w e q r
    using loop eat_shorter[OF that(1)] eat_shorter[OF that(2)] moved_trans less_trans by blast
  have eat3: "steady p (is_loop n e s)"
    if "eat_keyword v p = Some q" "eat_keyword w q = Some r" "eat_keyword x r = Some s" for v w x e q r s
    using loop eat_shorter[OF that(1)] eat_shorter[OF that(2)] eat_shorter[OF that(3)] moved_trans less_trans
    by meson
  have done1: "moved p (advance q)" if "eat_keyword v p = Some q" for v q
    using moved_trans[OF conjunct1[OF eat_shorter[OF that]] moved_advance] .
  have done2: "moved p (advance r)" if "eat_keyword v p = Some q" "eat_keyword w q = Some r" for v w q r
    using moved_trans[OF done1[OF that(1)]] eat_shorter[OF that(2)] moved_trans moved_advance
    by (metis eat_keyword_Some that)
  show ?case
    using eat eat2 eat3 done1 done2 by (auto simp: bump_def split: option.split)
qed simp

lemma name_parts_no_fuel: "name_parts ts \<noteq> Inl Fuel"
  by (induction ts rule: name_parts.induct) (auto simp: result_simps split: option.splits)

lemma skip_argument_name_moved: "skip_argument_name p = (b, q) \<Longrightarrow> moved p q"
  using moved_trans[OF moved_advance moved_advance]
  by (auto simp: skip_argument_name_def split: if_splits)

lemma skip_order_moved: "skip_order p = (b, q) \<Longrightarrow> moved p q"
  by (auto simp: skip_order_def dest!: eat_keyword_Some split: option.splits
      intro: moved_trans[OF moved_advance moved_seek])

lemma call_args_steady:
  assumes "steady_from d rec" "within d p" "length (remaining p) < n"
  shows "steady p (call_args rec n args decorated p)"
  using assms(2,3)
proof (induction n arbitrary: args decorated p)
  case (Suc n)
  obtain b q where q: "skip_argument_name p = (b, q)" by fastforce
  note mq = skip_argument_name_moved[OF q]
  show ?case
    unfolding call_args.simps q Let_def prod.case
  proof (rule steady_move[OF mq], rule steady_bind)
    show "steady q (rec q)" by (rule steady_from_at[OF assms(1) Suc.prems(1) mq])
    fix e r assume mr: "moved q r"
    obtain c s where s: "skip_order r = (c, s)" by fastforce
    note ms = skip_order_moved[OF s]
    have mps: "moved p s" using moved_trans[OF moved_trans[OF mq mr] ms] .
    have "steady s (call_args rec n a' d' (advance s))" if "peek s = Some t" for t a' d'
    proof (rule steady_move[OF moved_advance], rule Suc.IH)
      show "within d (advance s)"
        using Suc.prems(1) moved_within[OF moved_trans[OF mps moved_advance]] by blast
      show "length (remaining (advance s)) < n"
        using turn_shorter[OF that moved_refl] mps Suc.prems(2) by (auto simp: moved_def remaining_def)
    qed
    then show "steady r (case (e, r) of (e, p) \<Rightarrow> case skip_order p of (ordered, p) \<Rightarrow>
        case bump p of
          (Some Comma, p) \<Rightarrow> call_args rec n (args @ [e]) (decorated \<or> b \<or> ordered) p
        | (Some RParen, p) \<Rightarrow> Inr ((args @ [e], decorated \<or> b \<or> ordered), p)
        | _ \<Rightarrow> Inl (Fail (''expected '' @ [CHR 0x27, CHR '','', CHR 0x27] @ '' or ''
                                @ [CHR 0x27, CHR '')'', CHR 0x27] @ '' in argument list'')))"
      using s moved_trans[OF ms moved_advance]
      by (auto simp: bump_def intro!: steady_move[OF ms] split: option.split token.split)
  qed
qed simp

lemma call_list_steady:
  assumes "steady_from d rec" "within d p"
  shows "steady p (call_list rec p)"
proof -
  obtain b q where q: "(case eat_keyword ''DISTINCT'' p of
           Some q \<Rightarrow> (True, q)
         | None \<Rightarrow> (case eat_keyword ''ALL'' p of Some q \<Rightarrow> (True, q) | None \<Rightarrow> (False, p))) = (b, q)"
    by fastforce
  then have mq: "moved p q" by (auto simp: moves dest!: eat_keyword_Some split: option.splits)
  have "steady q (call_args rec (turns q) [] b q)"
    by (rule call_args_steady[OF assms(1)]) (use assms(2) moved_within[OF mq] in auto)
  moreover have "steady q (rbind (expect RParen (advance q)) (\<lambda>p. Inr (([], True), p)))"
    by (rule steady_move[OF moved_advance]) (rule expect_steady)
  ultimately show ?thesis
    unfolding call_list_def Let_def q
    using moved_trans[OF mq moved_advance] by (auto simp del: call_args.simps intro: steady_move[OF mq])
qed

lemma name_tail_steady:
  assumes "steady_from d rec" "within d p"
  shows "steady p (name_tail rec first p)"
proof (cases "name_parts (remaining p)")
  case (Inl e)
  then show ?thesis using name_parts_no_fuel[of "remaining p"] by (cases e) (simp_all add: name_tail_def)
next
  case (Inr v)
  obtain tail r where v: "v = (tail, r)" by (cases v)
  have ma: "moved p (advance (seek r p))" using moved_trans[OF moved_seek moved_advance] .
  have "steady (advance (seek r p)) (call_list rec (advance (seek r p)))"
    by (rule call_list_steady[OF assms(1)]) (use assms(2) moved_within[OF ma] in auto)
  then have "steady p (rbind (call_list rec (advance (seek r p))) f)"
    if "\<And>x q. steady q (f (x, q))" for f :: "(expr list \<times> bool) \<times> parser \<Rightarrow> expr parsed"
    using that by (intro steady_move[OF ma]) (rule steady_bind)
  then show ?thesis
    using Inr v by (auto simp: name_tail_def Let_def moves split: option.split)
qed

lemma rbind_assoc: "rbind (rbind r f) g = rbind r (\<lambda>x. rbind (f x) g)"
  by (cases r) simp_all

lemma row_rest_steady:
  assumes "steady_from d rec" "within d p" "length (remaining p) < n"
  shows "steady p (rbind (row_rest rec n p) (\<lambda>q. Inr ((), q)))"
  using assms(2,3)
proof (induction n arbitrary: p)
  case (Suc n)
  have "steady p (rbind (rec (advance p)) (\<lambda>x. rbind (row_rest rec n (snd x)) (\<lambda>q. Inr ((), q))))"
    if "peek p = Some t" for t
    by (rule steady_turn[OF operand_advance[OF assms(1) Suc.prems(1)] Suc.prems(1) that])
      (use Suc.IH Suc.prems(2) in auto)
  then show ?case by (auto simp: rbind_assoc split_beta)
qed simp

lemma row_rest_moved:
  assumes "steady_from d rec" "within d p"
  shows "row_rest rec (turns p) p \<noteq> Inl Fuel" "row_rest rec (turns p) p = Inr q \<Longrightarrow> moved p q"
  using row_rest_steady[OF assms, of "turns p"] by (auto simp del: row_rest.simps simp: steady_def)

lemma parenthesized_steady:
  assumes "steady_from d rec" "within d p"
  shows "steady p (parenthesized rec p)"
proof -
  have "steady p (rbind (rec p) (\<lambda>(first, p).
      if peek p = Some Comma
      then rbind (row_rest rec (turns p) p) (\<lambda>p.
           rbind (expect RParen p) (\<lambda>p. Inr (Unsupported ''row constructor'', p)))
      else rbind (expect RParen p) (\<lambda>p. Inr (first, p))))"
  proof (rule steady_bind[OF steady_fromD[OF assms]])
    fix e q assume m: "moved p q"
    have w: "within d q" using assms(2) moved_within[OF m] by blast
    have "steady q (rbind (row_rest rec (turns q) q) (\<lambda>p.
           rbind (expect RParen p) (\<lambda>p. Inr (Unsupported ''row constructor'', p))))"
    proof (cases "row_rest rec (turns q) q")
      case (Inl s)
      then show ?thesis using row_rest_moved(1)[OF assms(1) w] by (cases s) simp_all
    next
      case (Inr r)
      then show ?thesis using steady_move[OF row_rest_moved(2)[OF assms(1) w Inr] expect_steady] by simp
    qed
    then show "steady q (case (e, q) of (first, p) \<Rightarrow>
      if peek p = Some Comma
      then rbind (row_rest rec (turns p) p) (\<lambda>p.
           rbind (expect RParen p) (\<lambda>p. Inr (Unsupported ''row constructor'', p)))
      else rbind (expect RParen p) (\<lambda>p. Inr (first, p)))"
      using expect_steady[of q RParen e] by (simp del: row_rest.simps)
  qed
  then show ?thesis by (simp add: parenthesized_def)
qed

lemma cast_call_steady:
  assumes "steady_from d rec" "within d p"
  shows "steady p (cast_call rec try_cast p)"
  unfolding cast_call_def
proof (rule steady_bind[OF steady_fromD[OF assms]])
  fix e q
  have "steady (advance q) (rbind (type_name (advance q)) (\<lambda>((name, qualified), p).
         rbind (expect RParen p) (\<lambda>p. Inr (Cast try_cast qualified name e, p))))"
    by (rule steady_bind[OF type_name_steady]) (auto simp: expect_steady)
  then show "steady q (case (e, q) of (child, p) \<Rightarrow> case eat_keyword ''AS'' p of
       None \<Rightarrow> Inl (Fail ''expected AS in CAST'')
     | Some p \<Rightarrow> rbind (type_name p) (\<lambda>((name, qualified), p).
         rbind (expect RParen p) (\<lambda>p. Inr (Cast try_cast qualified name child, p))))"
    by (auto dest!: eat_keyword_Some intro: steady_move[OF moved_advance] split: option.split)
qed

lemma primary_steady:
  assumes "steady_from d rec"
  shows "steady_from d (primary rec)"
proof (rule steady_fromI)
  fix p assume w: "within d p"
  have w1: "within d (advance p)" using w moved_within[OF moved_advance] by blast
  have w2: "within d (advance (advance p))" using w1 moved_within[OF moved_advance] by blast
  note parts = steady_move[OF moved_advance parenthesized_steady[OF assms w1]]
    steady_move[OF moved_advance name_tail_steady[OF assms w1]]
    steady_move[OF moved_trans[OF moved_advance moved_advance] cast_call_steady[OF assms w2]]
  show "steady p (primary rec p)"
    using parts moved_trans[OF moved_advance moved_advance, of p]
    by (simp add: primary_def word_primary_def bump_def Let_def moves split: option.split token.split)
qed

lemma postfix_steady:
  assumes "steady_from d rec"
  shows "steady_from d (postfix rec)"
proof (rule steady_fromI)
  fix p assume w: "within d p"
  show "steady p (postfix rec p)"
    unfolding postfix_def
  proof (rule steady_bind[OF steady_fromD[OF primary_steady[OF assms] w]])
    fix e q assume m: "moved p q"
    have "steady q (cast_loop (turns q) e q)"
      by (rule cast_loop_steady) (use w moved_within[OF m] in auto)
    then show "steady q (case (e, q) of (e, p) \<Rightarrow> rbind (cast_loop (turns p) e p) (\<lambda>(e, p).
        if is_op ''['' p then Inr (Unsupported ''subscript'', p) else Inr (e, p)))"
      by (auto simp del: cast_loop.simps intro!: steady_bind)
  qed
qed

text \<open>Nested levels: what is parsed one deeper comes back to the depth it left.\<close>

lemma steady_nested:
  assumes "\<And>q. q = p\<lparr>depth := Suc (depth p)\<rparr> \<Longrightarrow> depth q \<le> MAX_DEPTH * 4 \<Longrightarrow> steady q (f q)"
  shows "steady p (rbind (enter p) (\<lambda>q. rbind (f q) (\<lambda>(e, r). Inr (g e, leave r))))"
proof (cases "depth p < MAX_DEPTH * 4")
  case True
  define q where "q = p\<lparr>depth := Suc (depth p)\<rparr>"
  have st: "steady q (f q)" using assms True by (simp add: q_def)
  show ?thesis
  proof (cases "f q")
    case (Inl e)
    then show ?thesis using st True by (simp add: enter_def q_def[symmetric] steady_def)
  next
    case (Inr v)
    then show ?thesis
      using st True by (cases v) (simp add: enter_def q_def[symmetric], simp add: moved_def leave_def q_def)
  qed
qed (simp add: enter_def)

lemma unary_steady:
  assumes "steady_from d rec"
  shows "steady_from d (unary rec)"
proof -
  have "steady p (unary_loop rec n p)" if "within d p" "length (remaining p) < n" for n p
    using that
  proof (induction n arbitrary: p)
    case (Suc n)
    have "steady p (rbind (enter (advance p)) (\<lambda>q. rbind (unary_loop rec n q) (\<lambda>(e, r). Inr (g e, leave r))))"
      if "peek p = Some t" for t and g :: "expr \<Rightarrow> expr"
    proof (rule steady_move[OF moved_advance], rule steady_nested)
      fix q assume "q = (advance p)\<lparr>depth := Suc (depth (advance p))\<rparr>" "depth q \<le> MAX_DEPTH * 4"
      then show "steady q (unary_loop rec n q)"
        using Suc.prems turn_shorter[OF that moved_refl]
        by (intro Suc.IH) (auto simp: advance_def remaining_def)
    qed
    then show ?case
      using steady_fromD[OF postfix_steady[OF assms] Suc.prems(1)] by (auto simp: is_op_def Let_def)
  qed simp
  then show ?thesis by (auto intro!: steady_fromI simp: unary_def simp del: unary_loop.simps)
qed

lemma concat_level_steady:
  assumes "steady_from d rec"
  shows "steady_from d (concat_level rec)"
  unfolding concat_level_def additive_def multiplicative_def power_level_def
  by (intro op_level_steady unary_steady assms)

lemma comparison_steady:
  assumes "steady_from d rec"
  shows "steady_from d (comparison rec)"
proof (rule steady_fromI)
  fix p assume w: "within d p"
  note operand = concat_level_steady[OF assms]
  show "steady p (comparison rec p)"
    unfolding comparison_def
  proof (rule steady_bind[OF steady_fromD[OF operand w]])
    fix e q assume m: "moved p q"
    then have "within d q" using w moved_within by blast
    then have "steady q (rbind (concat_level rec (advance q)) (\<lambda>(right, p). Inr (Compare e right, p)))"
      by (rule steady_move[OF moved_advance steady_bind[OF operand_advance[OF operand]]]) auto
    then show "steady q (case (e, q) of (left, p) \<Rightarrow>
      if predicate (peek p) \<or> keyword (peek p) ''NOT'' \<and> predicate (peek_at 1 p)
      then Inr (Unsupported ''IN / BETWEEN / LIKE predicate'', p)
      else (case peek p of
             Some (Op op) \<Rightarrow>
               if op \<in> set COMPARISONS
               then rbind (concat_level rec (advance p)) (\<lambda>(right, p). Inr (Compare left right, p))
               else Inr (left, p)
           | _ \<Rightarrow> Inr (left, p)))"
      by (simp split: option.split token.split)
  qed
qed

lemma not_level_steady:
  assumes "steady_from d rec"
  shows "steady_from d (not_level rec)"
proof -
  have operand: "steady p (is_level rec p)" if "within d p" for p
    unfolding is_level_def
    by (rule steady_bind[OF steady_fromD[OF comparison_steady[OF assms] that]])
      (auto simp del: is_loop.simps intro: is_loop_steady)
  have "steady p (not_loop rec n p)" if "within d p" "length (remaining p) < n" for n p
    using that
  proof (induction n arbitrary: p)
    case (Suc n)
    have "steady p (rbind (enter (advance p)) (\<lambda>q. rbind (not_loop rec n q) (\<lambda>(e, r). Inr (Not e, leave r))))"
      if "peek p = Some t" for t
    proof (rule steady_move[OF moved_advance], rule steady_nested)
      fix q assume "q = (advance p)\<lparr>depth := Suc (depth (advance p))\<rparr>" "depth q \<le> MAX_DEPTH * 4"
      then show "steady q (not_loop rec n q)"
        using Suc.prems turn_shorter[OF that moved_refl]
        by (intro Suc.IH) (auto simp: advance_def remaining_def)
    qed
    then show ?case using operand[OF Suc.prems(1)] by (auto dest: eat_keyword_Some split: option.split)
  qed simp
  then show ?thesis by (auto intro!: steady_fromI simp: not_level_def simp del: not_loop.simps)
qed

lemma expression_steady: "steady_from (Suc (MAX_DEPTH * 4) - n) (expression n)"
proof (induction n)
  case 0
  then show ?case by (auto simp: steady_from_def)
next
  case (Suc n)
  have level: "steady_from (Suc (MAX_DEPTH * 4) - n) (or_level (expression n))"
    unfolding or_level_def and_level_def
    by (intro conjunction_level_steady not_level_steady Suc.IH)
  show ?case
  proof (rule steady_fromI)
    fix p assume w: "within (Suc (MAX_DEPTH * 4) - Suc n) p"
    have "steady p (rbind (enter p) (\<lambda>q. rbind (or_level (expression n) q) (\<lambda>(e, r). Inr (id e, leave r))))"
    proof (rule steady_nested)
      fix q assume "q = p\<lparr>depth := Suc (depth p)\<rparr>" "depth q \<le> MAX_DEPTH * 4"
      then show "steady q (or_level (expression n) q)" using w by (intro steady_fromD[OF level]) auto
    qed
    then show "steady p (expression (Suc n) p)" by simp
  qed
qed

text \<open>C8: Parsing a text as one scalar expression always returns, with an expression or with a message:
  no nesting of parentheses, signs, negations, calls or casts and no chain of operators keeps one of
  the parser's loops turning or takes it past the code's limit on nested calls.
\<close>

theorem parse_returns: "(\<exists>e. parse u sql = Inr e) \<or> (\<exists>message. parse u sql = Inl (Fail message))"
proof -
  have "steady p (expression NESTED_CALLS p)" if "depth p = 0" for p
    by (rule steady_fromD[OF expression_steady]) (simp add: that NESTED_CALLS_def)
  then have "parse_tokens ts \<noteq> Inl Fuel" for ts
    by (auto simp: parse_tokens_def result_simps steady_def)
  then have "parse u sql \<noteq> Inl Fuel" by (auto simp: parse_def result_simps map_err_def split: sum.splits)
  then show ?thesis by (cases "parse u sql") (auto intro: stop.exhaust)
qed

end
