(* ===== verification/Sql_Grammar.thy ===== *)
theory Sql_Grammar
  imports Sql_Total Arrow
begin

text \<open>
  The two grammars of \<open>src/vgi/src/sql_expression.rs\<close> on parsed expressions: the numeric comparison of a
  CHECK constraint and the deterministic scalar expressions of a generated column. The display of an
  Arrow type, which only error messages show, is a parameter.
\<close>

definition MAX_NODES :: nat where "MAX_NODES = 4096"

definition has_metadata :: "field \<Rightarrow> string \<Rightarrow> bool" where
  "has_metadata f key \<longleftrightarrow> map_of (metadata f) key \<noteq> None"

definition column :: "field list \<Rightarrow> string \<Rightarrow> string + field" where
  "column cols name =
     (case filter (\<lambda>f. eq_ignore_ascii_case (field_name f) name) cols of
        [f] \<Rightarrow> Inr f
      | [] \<Rightarrow> Inl (''references unknown column '' @ [CHR 0x27] @ name @ [CHR 0x27])
      | _ \<Rightarrow> Inl (''column reference '' @ [CHR 0x27] @ name @ [CHR 0x27] @ '' is ambiguous''))"

definition is_row_id :: "field \<Rightarrow> bool" where
  "is_row_id f \<longleftrightarrow> has_metadata f ''is_row_id''"

text \<open>The text of a parse error.\<close>

definition stop_message :: "stop \<Rightarrow> string" where
  "stop_message s = (case s of Fail m \<Rightarrow> m | Fuel \<Rightarrow> [])"

section \<open>CHECK constraints\<close>

definition check_operand :: "(data_type \<Rightarrow> string) \<Rightarrow> field list \<Rightarrow> expr \<Rightarrow> string + unit" where
  "check_operand show_type cols operand =
     (case operand of
        Literal l \<Rightarrow>
          if l = IntegerLit \<or> l = OtherNumericLit then Inr ()
          else Inl ''CHECK requires non-NULL numeric literals''
      | Column parts \<Rightarrow>
          (case parts of
             [name] \<Rightarrow>
               rbind (column cols name) (\<lambda>f.
               if is_row_id f then Inl ''CHECK references the synthetic row-id column''
               else if has_metadata f ''ARROW:extension:name''
               then Inl (''column '' @ [CHR 0x27] @ field_name f @ [CHR 0x27] @ '' is extension-typed'')
               else if field_type f \<in> {Int8, Int16, Int32, Int64, Float32, Float64} then Inr ()
               else Inl (''column '' @ [CHR 0x27] @ field_name f @ [CHR 0x27] @ '' is '' @ show_type (field_type f)
                         @ ''; CHECK requires primitive signed numeric columns (Int8..Int64, Float32, Float64)''))
           | _ \<Rightarrow> Inl ''CHECK requires unqualified column references'')
      | _ \<Rightarrow> Inl (''operands must be numeric literals or column references (no functions, ''
                  @ ''casts or nested expressions)''))"

definition check_numeric_comparison ::
  "unicode \<Rightarrow> (data_type \<Rightarrow> string) \<Rightarrow> string \<Rightarrow> field list \<Rightarrow> unit result" where
  "check_numeric_comparison u show_type sql cols =
     map_err (\<lambda>message. value_error (''CHECK ('' @ sql @ ''): '' @ message))
       (rbind (map_err stop_message (parse u sql)) (\<lambda>e.
        case e of
          Compare left right \<Rightarrow>
            rbind (check_operand show_type cols left) (\<lambda>_. check_operand show_type cols right)
        | _ \<Rightarrow> Inl (''the DuckDB extension reads only one numeric comparison (=, <>, <, >, <=, >=) ''
                    @ ''between columns and numeric literals'')))"

section \<open>Generated columns\<close>

definition generated_cast_type :: "string \<Rightarrow> bool" where
  "generated_cast_type name \<longleftrightarrow>
     name \<in> {''BOOLEAN'', ''BOOL'', ''LOGICAL'', ''TINYINT'', ''INT1'', ''SMALLINT'', ''INT2'', ''SHORT'', ''INTEGER'',
             ''INT'', ''INT4'', ''SIGNED'', ''INT32'', ''BIGINT'', ''INT8'', ''LONG'', ''INT64'', ''VARCHAR'', ''TEXT'',
             ''STRING'', ''CHAR'', ''BPCHAR'', ''NVARCHAR'', ''CHARACTER VARYING'', ''NULL''}"

definition generated_type :: "data_type \<Rightarrow> bool" where
  "generated_type t \<longleftrightarrow> t \<in> {Boolean, Int8, Int16, Int32, Int64, Utf8}"

definition allowed_function :: "string \<Rightarrow> bool" where
  "allowed_function name \<longleftrightarrow>
     map to_ascii_lowercase name \<in> {''+'', ''-'', ''*'', ''%'', ''abs'', ''lower'', ''upper''} \<or> name = ''||''"

text \<open>The match on one node: its children, or why it is refused.\<close>

definition node_children :: "(data_type \<Rightarrow> string) \<Rightarrow> field list \<Rightarrow> expr \<Rightarrow> string + expr list" where
  "node_children show_type cols e =
     (case e of
        Literal l \<Rightarrow>
          if l = OtherNumericLit
          then Inl (''unsupported scalar literal type (only NULL, BOOLEAN, BIGINT-range '' @ ''integers and strings)'')
          else Inr []
      | Column parts \<Rightarrow>
          (case parts of
             [name] \<Rightarrow>
               rbind (column cols name) (\<lambda>f.
               if \<not> generated_type (field_type f) \<or> has_metadata f ''ARROW:extension:name''
               then Inl (''unsupported generated operand type '' @ show_type (field_type f) @ '' of column ''
                         @ [CHR 0x27] @ field_name f @ [CHR 0x27])
               else Inr [])
           | _ \<Rightarrow> Inl ''column references must be unqualified'')
      | Cast try_cast qualified name child \<Rightarrow>
          if try_cast \<or> qualified \<or> \<not> generated_cast_type name
          then Inl (''unsupported scalar cast to '' @ name) else Inr [child]
      | Compare a b \<Rightarrow> Inr [a, b]
      | Conjunction parts \<Rightarrow> Inr parts
      | Coalesce parts \<Rightarrow> Inr parts
      | Not a \<Rightarrow> Inr [a]
      | IsNull a \<Rightarrow> Inr [a]
      | Function name qualified args decorated \<Rightarrow>
          if qualified \<or> decorated \<or> \<not> allowed_function name
          then Inl (''unsupported scalar function '' @ [CHR 0x27] @ name @ [CHR 0x27]) else Inr args
      | Unsupported what \<Rightarrow> Inl (what @ '' is outside the supported deterministic scalar grammar''))"

text \<open>The nodes of a tree, by which the walk over it is measured.\<close>

primrec node_count :: "expr \<Rightarrow> nat" where
  "node_count (Literal l) = 1"
| "node_count (Column parts) = 1"
| "node_count (Cast t q name e) = 1 + node_count e"
| "node_count (Compare a b) = 1 + (node_count a + node_count b)"
| "node_count (Conjunction es) = 1 + sum_list (map node_count es)"
| "node_count (Not e) = 1 + node_count e"
| "node_count (IsNull e) = 1 + node_count e"
| "node_count (Coalesce es) = 1 + sum_list (map node_count es)"
| "node_count (Function name q es d) = 1 + sum_list (map node_count es)"
| "node_count (Unsupported what) = 1"

lemma node_count_pos [simp]: "0 < node_count e"
  by (cases e) simp_all

lemma node_children_smaller:
  "node_children show_type cols e = Inr cs \<Longrightarrow> sum_list (map node_count cs) < node_count e"
  by (cases e) (auto simp: node_children_def result_simps split: if_splits list.splits)

text \<open>The count of nodes visited so far is passed along and returned.\<close>

function generated_node :: "(data_type \<Rightarrow> string) \<Rightarrow> field list \<Rightarrow> nat \<Rightarrow> expr \<Rightarrow> nat \<Rightarrow> string + nat"
  and generated_children :: "(data_type \<Rightarrow> string) \<Rightarrow> field list \<Rightarrow> nat \<Rightarrow> expr list \<Rightarrow> nat \<Rightarrow> string + nat" where
  "generated_node show_type cols d e nodes =
     (if d > MAX_DEPTH \<or> nodes + 1 > MAX_NODES then Inl ''scalar expression is too complex''
      else (case node_children show_type cols e of
              Inl m \<Rightarrow> Inl m
            | Inr cs \<Rightarrow> generated_children show_type cols (d + 1) cs (nodes + 1)))"
| "generated_children show_type cols d [] nodes = Inr nodes"
| "generated_children show_type cols d (c # cs) nodes =
     rbind (generated_node show_type cols d c nodes) (\<lambda>nodes.
     generated_children show_type cols d cs nodes)"
  by pat_completeness auto
termination
  by (relation "measure (\<lambda>x. case x of Inl (_, _, _, e, _) \<Rightarrow> 2 * node_count e
        | Inr (_, _, _, cs, _) \<Rightarrow> Suc (2 * sum_list (map node_count cs)))")
    (auto dest: node_children_smaller)

definition check_generated :: "unicode \<Rightarrow> (data_type \<Rightarrow> string) \<Rightarrow> string \<Rightarrow> field list \<Rightarrow> unit result" where
  "check_generated u show_type sql cols =
     map_err (\<lambda>message. value_error (''generated expression ('' @ sql @ ''): '' @ message))
       (rbind (map_err stop_message (parse u sql)) (\<lambda>e.
        rbind (generated_node show_type cols 0 e 0) (\<lambda>_. Inr ())))"

section \<open>The grammars as properties of the tree\<close>

text \<open>The one column of a name, whatever its case.\<close>

definition the_column :: "field list \<Rightarrow> string \<Rightarrow> field \<Rightarrow> bool" where
  "the_column cols name f \<longleftrightarrow> filter (\<lambda>g. eq_ignore_ascii_case (field_name g) name) cols = [f]"

definition plain_column :: "(field \<Rightarrow> bool) \<Rightarrow> field list \<Rightarrow> string list \<Rightarrow> bool" where
  "plain_column P cols parts \<longleftrightarrow>
     (\<exists>name f. parts = [name] \<and> the_column cols name f \<and> \<not> has_metadata f ''ARROW:extension:name'' \<and> P f)"

primrec supported :: "field list \<Rightarrow> expr \<Rightarrow> bool" where
  "supported cols (Literal l) \<longleftrightarrow> l \<noteq> OtherNumericLit"
| "supported cols (Column parts) \<longleftrightarrow> plain_column (\<lambda>f. generated_type (field_type f)) cols parts"
| "supported cols (Cast t q name e) \<longleftrightarrow> \<not> t \<and> \<not> q \<and> generated_cast_type name \<and> supported cols e"
| "supported cols (Compare a b) \<longleftrightarrow> supported cols a \<and> supported cols b"
| "supported cols (Conjunction es) \<longleftrightarrow> list_all (supported cols) es"
| "supported cols (Not e) \<longleftrightarrow> supported cols e"
| "supported cols (IsNull e) \<longleftrightarrow> supported cols e"
| "supported cols (Coalesce es) \<longleftrightarrow> list_all (supported cols) es"
| "supported cols (Function name q es d) \<longleftrightarrow>
     \<not> q \<and> \<not> d \<and> allowed_function name \<and> list_all (supported cols) es"
| "supported cols (Unsupported what) \<longleftrightarrow> False"

text \<open>The longest path below a node: its children are at depth one.\<close>

definition below :: "nat list \<Rightarrow> nat" where
  "below hs = foldr (\<lambda>h. max (Suc h)) hs 0"

primrec expr_height :: "expr \<Rightarrow> nat" where
  "expr_height (Literal l) = 0"
| "expr_height (Column parts) = 0"
| "expr_height (Cast t q name e) = below [expr_height e]"
| "expr_height (Compare a b) = below [expr_height a, expr_height b]"
| "expr_height (Conjunction es) = below (map expr_height es)"
| "expr_height (Not e) = below [expr_height e]"
| "expr_height (IsNull e) = below [expr_height e]"
| "expr_height (Coalesce es) = below (map expr_height es)"
| "expr_height (Function name q es d) = below (map expr_height es)"
| "expr_height (Unsupported what) = 0"

lemma column_Inr_iff [simp]: "column cols name = Inr f \<longleftrightarrow> the_column cols name f"
  by (simp add: column_def the_column_def split: list.split)

lemma the_column_unique: "the_column cols name f \<Longrightarrow> the_column cols name g \<Longrightarrow> f = g"
  by (simp add: the_column_def)

lemma below_le_iff: "d + below hs \<le> k \<longleftrightarrow> d \<le> k \<and> (\<forall>h \<in> set hs. Suc d + h \<le> k)"
  by (induction hs) (auto simp: below_def)

lemma node_children_Inr:
  assumes "node_children show_type cols e = Inr cs"
  shows "supported cols e \<longleftrightarrow> list_all (supported cols) cs"
    "node_count e = 1 + sum_list (map node_count cs)"
    "expr_height e = below (map expr_height cs)"
  using assms
  by (cases e; auto simp: node_children_def plain_column_def below_def result_simps split: if_splits list.splits)+

lemma column_bind_Inl:
  "rbind (column cols name) f = Inl m \<Longrightarrow> the_column cols name c \<Longrightarrow> f c = Inl m"
  by (metis column_Inr_iff rbind_simps(2))

lemma node_children_Inl: "node_children show_type cols e = Inl m \<Longrightarrow> \<not> supported cols e"
  by (cases e) (auto simp: node_children_def plain_column_def dest: column_bind_Inl split: if_splits list.splits)

lemma is_ok_iff: "is_ok r \<longleftrightarrow> (\<exists>x. r = Inr x)"
  by (cases r) simp_all

lemma is_ok_map_err: "is_ok (map_err f r) \<longleftrightarrow> is_ok r"
  by (cases r) simp_all

text \<open>The walk with a running count accepts exactly the trees of the grammar within both limits.\<close>

lemma generated_walk:
  "nodes \<le> MAX_NODES \<Longrightarrow> generated_node show_type cols d e nodes = Inr m \<longleftrightarrow>
     supported cols e \<and> d + expr_height e \<le> MAX_DEPTH \<and> nodes + node_count e \<le> MAX_NODES
     \<and> m = nodes + node_count e"
  "nodes \<le> MAX_NODES \<Longrightarrow> generated_children show_type cols d es nodes = Inr m \<longleftrightarrow>
     list_all (supported cols) es \<and> (\<forall>e \<in> set es. d + expr_height e \<le> MAX_DEPTH)
     \<and> nodes + sum_list (map node_count es) \<le> MAX_NODES \<and> m = nodes + sum_list (map node_count es)"
proof (induction show_type cols d e nodes and show_type cols d es nodes arbitrary: m and m
    rule: generated_node_generated_children.induct)
  case (1 show_type cols d e nodes)
  show ?case
  proof (cases "node_children show_type cols e")
    case (Inl w)
    then show ?thesis using node_children_Inl by auto
  next
    case (Inr cs)
    show ?thesis
    proof (cases "d > MAX_DEPTH \<or> nodes + 1 > MAX_NODES")
      case True
      then show ?thesis using node_children_Inr(2)[OF Inr] by auto
    next
      case False
      then show ?thesis
        using "1.IH"[OF False Inr] Inr node_children_Inr[OF Inr] by (auto simp: below_le_iff)
    qed
  qed
next
  case (3 show_type cols d c cs nodes)
  show ?case
  proof (cases "generated_node show_type cols d c nodes")
    case (Inl w)
    then have "\<not> (supported cols c \<and> d + expr_height c \<le> MAX_DEPTH \<and> nodes + node_count c \<le> MAX_NODES)"
      using "3.IH"(1)[OF "3.prems"] by auto
    then show ?thesis using Inl by auto
  next
    case (Inr k)
    then have "supported cols c \<and> d + expr_height c \<le> MAX_DEPTH \<and> k = nodes + node_count c \<and> k \<le> MAX_NODES"
      using "3.IH"(1)[OF "3.prems", of k] by (simp del: generated_node.simps)
    then show ?thesis using Inr "3.IH"(2)[of k] by (auto simp: add.assoc)
  qed
qed auto

lemma check_generated_ok:
  "is_ok (check_generated u show_type sql cols) \<longleftrightarrow>
     (\<exists>e. parse u sql = Inr e \<and> supported cols e \<and> node_count e \<le> MAX_NODES \<and> expr_height e \<le> MAX_DEPTH)"
proof (cases "parse u sql")
  case (Inl e)
  then show ?thesis by (simp add: check_generated_def)
next
  case (Inr e)
  have "is_ok (rbind (generated_node show_type cols 0 e 0) (\<lambda>_. Inr ())) \<longleftrightarrow>
      supported cols e \<and> node_count e \<le> MAX_NODES \<and> expr_height e \<le> MAX_DEPTH"
    unfolding is_ok_iff rbind_eq_Inr_iff generated_walk(1)[OF le0] by auto
  then show ?thesis unfolding check_generated_def Inr map_err_simps rbind_simps is_ok_map_err by simp
qed

definition numeric_operand :: "field list \<Rightarrow> expr \<Rightarrow> bool" where
  "numeric_operand cols e \<longleftrightarrow>
     e = Literal IntegerLit \<or> e = Literal OtherNumericLit
     \<or> (\<exists>parts. e = Column parts \<and> plain_column (\<lambda>f.
          \<not> is_row_id f \<and> field_type f \<in> {Int8, Int16, Int32, Int64, Float32, Float64}) cols parts)"

lemma is_ok_column: "is_ok (rbind (column cols name) f) \<longleftrightarrow> (\<exists>c. the_column cols name c \<and> is_ok (f c))"
  unfolding is_ok_iff rbind_eq_Inr_iff column_Inr_iff by blast

lemma is_ok_if: "is_ok (if b then x else y) \<longleftrightarrow> (if b then is_ok x else is_ok y)"
  by simp

lemma check_operand_column:
  "is_ok (check_operand show_type cols (Column parts)) \<longleftrightarrow> plain_column (\<lambda>f.
     \<not> is_row_id f \<and> field_type f \<in> {Int8, Int16, Int32, Int64, Float32, Float64}) cols parts"
proof (cases parts rule: remdups_adj.cases)
  case (2 name)
  show ?thesis
    unfolding 2 check_operand_def plain_column_def expr.case list.case is_ok_column is_ok_if is_ok_simps by auto
qed (simp_all add: check_operand_def plain_column_def)

lemma check_operand_ok: "is_ok (check_operand show_type cols e) \<longleftrightarrow> numeric_operand cols e"
proof (cases e)
  case (Column parts)
  then show ?thesis unfolding numeric_operand_def Column check_operand_column by blast
qed (simp_all add: check_operand_def numeric_operand_def)

lemma check_numeric_ok:
  "is_ok (check_numeric_comparison u show_type sql cols) \<longleftrightarrow>
     (\<exists>left right. parse u sql = Inr (Compare left right) \<and> numeric_operand cols left \<and> numeric_operand cols right)"
proof (cases "parse u sql")
  case (Inl e)
  then show ?thesis by (simp add: check_numeric_comparison_def)
next
  case (Inr e)
  have "is_ok (rbind (check_operand show_type cols l) (\<lambda>_. check_operand show_type cols r)) \<longleftrightarrow>
      numeric_operand cols l \<and> numeric_operand cols r" for l r
    unfolding check_operand_ok[symmetric, of _ _ show_type] is_ok_iff rbind_eq_Inr_iff by blast
  then show ?thesis
    unfolding check_numeric_comparison_def Inr map_err_simps rbind_simps is_ok_map_err by (cases e) simp_all
qed

text \<open>C14: What the two grammars accept. A generated-column expression is accepted exactly when its text
  parses to a tree all of whose nodes are in the deterministic scalar grammar over the table's
  columns, with at most 4096 nodes and no path longer than 64: the walk with its running node counter
  neither refuses a tree within the limits nor lets one outside through, in whatever order it meets
  the nodes. A CHECK is accepted exactly when it parses to one comparison of numeric literals and
  unambiguous, unqualified, plainly numeric columns other than the row id.
\<close>

theorem sql_checks_exact:
  "(is_ok (check_generated u show_type sql cols) \<longleftrightarrow>
     (\<exists>e. parse u sql = Inr e \<and> supported cols e \<and> node_count e \<le> MAX_NODES \<and> expr_height e \<le> MAX_DEPTH))
   \<and> (is_ok (check_numeric_comparison u show_type sql cols) \<longleftrightarrow>
     (\<exists>left right. parse u sql = Inr (Compare left right) \<and> numeric_operand cols left \<and> numeric_operand cols right))"
  using check_generated_ok check_numeric_ok by blast

end
