(* ===== verification/Sql_Render.thy ===== *)
theory Sql_Render
  imports Sql_Grammar
begin

text \<open>
  A rendering of the trees of \<open>src/vgi/src/sql_expression.rs\<close> as tokens, with all operands in parentheses,
  and what each level of the parser does with an operand so written: it reads the operand and
  leaves what follows alone.
\<close>

section \<open>Rendering\<close>

fun separated :: "token \<Rightarrow> token list list \<Rightarrow> token list" where
  "separated s [] = []"
| "separated s [t] = t"
| "separated s (t # u # ts) = t @ s # separated s (u # ts)"

definition paren :: "token list \<Rightarrow> token list" where
  "paren ts = LParen # ts @ [RParen]"

definition literal_token :: "sql_literal \<Rightarrow> token" where
  "literal_token l =
     (case l of
        NullLit \<Rightarrow> Ident ''NULL''
      | BooleanLit \<Rightarrow> Ident ''TRUE''
      | IntegerLit \<Rightarrow> Number ''1''
      | OtherNumericLit \<Rightarrow> Number ''1.5''
      | VarcharLit \<Rightarrow> Str)"

primrec render :: "expr \<Rightarrow> token list" where
  "render (Literal l) = [literal_token l]"
| "render (Column parts) = separated Dot (map (\<lambda>n. [Quoted n]) parts)"
| "render (Cast t q name e) =
     Ident (if t then ''TRY_CAST'' else ''CAST'') # LParen # paren (render e) @ [Ident ''AS'', Quoted name, RParen]"
| "render (Compare a b) = paren (render a) @ Op ''='' # paren (render b)"
| "render (Conjunction es) = separated (Ident ''AND'') (map (\<lambda>e. paren (render e)) es)"
| "render (Not e) = Ident ''NOT'' # paren (render e)"
| "render (IsNull e) = paren (render e) @ [Ident ''ISNULL'']"
| "render (Coalesce es) = Quoted ''coalesce'' # LParen # separated Comma (map (\<lambda>e. paren (render e)) es) @ [RParen]"
| "render (Function name q es d) = Quoted name # LParen # separated Comma (map (\<lambda>e. paren (render e)) es) @ [RParen]"
| "render (Unsupported what) = []"

text \<open>Trees in the form the parser builds: conjunctions of two or more, type names in capitals.\<close>

primrec renderable :: "expr \<Rightarrow> bool" where
  "renderable (Literal l) \<longleftrightarrow> True"
| "renderable (Column parts) \<longleftrightarrow> parts \<noteq> []"
| "renderable (Cast t q name e) \<longleftrightarrow> \<not> q \<and> map to_ascii_uppercase name = name \<and> renderable e"
| "renderable (Compare a b) \<longleftrightarrow> renderable a \<and> renderable b"
| "renderable (Conjunction es) \<longleftrightarrow> 2 \<le> length es \<and> list_all renderable es"
| "renderable (Not e) \<longleftrightarrow> renderable e"
| "renderable (IsNull e) \<longleftrightarrow> renderable e"
| "renderable (Coalesce es) \<longleftrightarrow> list_all renderable es"
| "renderable (Function name q es d) \<longleftrightarrow>
     \<not> q \<and> \<not> d \<and> \<not> eq_ignore_ascii_case name ''coalesce'' \<and> list_all renderable es"
| "renderable (Unsupported what) \<longleftrightarrow> False"

section \<open>Positions\<close>

definition skip :: "nat \<Rightarrow> parser \<Rightarrow> parser" where
  "skip n p = p\<lparr>pos := pos p + n\<rparr>"

lemma skip_simps [simp]:
  "skip a (skip b p) = skip (b + a) p" "skip 0 p = p" "depth (skip a p) = depth p"
  "remaining (skip a p) = drop a (remaining p)"
  by (simp_all add: skip_def remaining_def add.commute)

lemma advance_skip: "advance p = skip 1 p"
  by (simp add: advance_def skip_def)

lemma seek_skip: "seek r p = skip (length (remaining p) - length r) p"
  by (simp add: seek_def skip_def)

lemma peek_at_remaining: "peek_at k p = (if k < length (remaining p) then Some (remaining p ! k) else None)"
  by (auto simp: peek_at_def remaining_def less_diff_conv add.commute)

lemma peek_eq: "peek p = (case remaining p of [] \<Rightarrow> None | t # _ \<Rightarrow> Some t)"
  by (simp add: peek_def peek_at_remaining nth_Cons split: list.split)

text \<open>What may follow a whole expression: nothing, a closing parenthesis, a comma, or \<open>AS\<close>.\<close>

definition closes :: "token list \<Rightarrow> bool" where
  "closes ts \<longleftrightarrow> (case ts of [] \<Rightarrow> True | t # _ \<Rightarrow> t \<in> {RParen, Comma, Ident ''AS''})"

definition quiet :: "string list \<Rightarrow> token list \<Rightarrow> bool" where
  "quiet ws ts \<longleftrightarrow>
     (case ts of [] \<Rightarrow> True | t # _ \<Rightarrow> (\<forall>op. t \<noteq> Op op) \<and> list_all (\<lambda>w. \<not> keyword (Some t) w) ws)"

definition KEYWORDS :: "string list" where
  "KEYWORDS = PREDICATES @ [''NOT'', ''ISNULL'', ''NOTNULL'', ''IS'', ''AND'', ''OR'']"

lemma closes_quiet: "closes ts \<Longrightarrow> quiet KEYWORDS ts"
proof -
  have "list_all (\<lambda>w. \<not> eq_ignore_ascii_case ''AS'' w) KEYWORDS" by code_simp
  then show "closes ts \<Longrightarrow> quiet KEYWORDS ts"
    by (auto simp: closes_def quiet_def keyword_def list_all_iff split: list.splits)
qed

lemma and_quiet: "quiet (PREDICATES @ [''NOT'', ''ISNULL'', ''NOTNULL'', ''IS'']) (Ident ''AND'' # ts)"
proof -
  have "list_all (\<lambda>w. \<not> eq_ignore_ascii_case ''AND'' w) (PREDICATES @ [''NOT'', ''ISNULL'', ''NOTNULL'', ''IS''])"
    by code_simp
  then show ?thesis by (auto simp: quiet_def keyword_def list_all_iff)
qed

lemma isnull_quiet: "quiet (PREDICATES @ [''NOT'']) (Ident ''ISNULL'' # ts)"
proof -
  have "list_all (\<lambda>w. \<not> eq_ignore_ascii_case ''ISNULL'' w) (PREDICATES @ [''NOT''])" by code_simp
  then show ?thesis by (auto simp: quiet_def keyword_def list_all_iff)
qed

lemma quiet_subset: "quiet ws ts \<Longrightarrow> set vs \<subseteq> set ws \<Longrightarrow> quiet vs ts"
  by (auto simp: quiet_def list_all_iff split: list.splits)

lemma quiet_keyword: "quiet ws (remaining p) \<Longrightarrow> w \<in> set ws \<Longrightarrow> \<not> keyword (peek p) w"
  by (auto simp: quiet_def peek_eq keyword_def list_all_iff split: list.splits)

lemma quiet_op: "quiet ws (remaining p) \<Longrightarrow> peek p \<noteq> Some (Op op)"
  by (auto simp: quiet_def peek_eq split: list.splits)

section \<open>Levels that have nothing to do\<close>

lemma op_level_pass:
  assumes "operand p = Inr (e, q)" "\<And>op. peek q = Some (Op op) \<Longrightarrow> \<not> level op"
  shows "op_level level build operand p = Inr (e, q)"
  using assms by (auto simp: op_level_def split: option.split token.split)

lemma concat_pass:
  assumes "primary rec p = Inr (e, q)" "\<And>op. peek p \<noteq> Some (Op op)"
    "\<And>op. peek q = Some (Op op) \<Longrightarrow> op \<in> set COMPARISONS"
  shows "concat_level rec p = Inr (e, q)"
proof -
  have "list_all (\<lambda>op. op \<noteq> ''::'' \<and> op \<noteq> ''['' \<and> op \<notin> {''^'', ''**''} \<and> op \<notin> {''*'', ''/'', ''%'', ''//''}
      \<and> op \<notin> {''+'', ''-''} \<and> \<not> (op = ''||'' \<or> op \<in> set GENERIC_OPERATORS)) COMPARISONS"
    by code_simp
  then have other: "op \<noteq> ''::'' \<and> op \<noteq> ''['' \<and> op \<notin> {''^'', ''**''} \<and> op \<notin> {''*'', ''/'', ''%'', ''//''}
      \<and> op \<notin> {''+'', ''-''} \<and> \<not> (op = ''||'' \<or> op \<in> set GENERIC_OPERATORS)"
    if "peek q = Some (Op op)" for op
    using assms(3)[OF that] unfolding list_all_iff by blast
  have "\<not> is_op ''::'' q" "\<not> is_op ''['' q" using other by (auto simp: is_op_def)
  then have "postfix rec p = Inr (e, q)" using assms(1) by (simp add: postfix_def)
  then have 1: "unary rec p = Inr (e, q)" using assms(2) by (simp add: unary_def is_op_def)
  have 2: "power_level rec p = Inr (e, q)"
    unfolding power_level_def by (rule op_level_pass[where operand = "unary rec", OF 1]) (drule other, (erule conjE)+, assumption)
  have 3: "multiplicative rec p = Inr (e, q)"
    unfolding multiplicative_def by (rule op_level_pass[where operand = "power_level rec", OF 2]) (drule other, (erule conjE)+, assumption)
  have 4: "additive rec p = Inr (e, q)"
    unfolding additive_def by (rule op_level_pass[where operand = "multiplicative rec", OF 3]) (drule other, (erule conjE)+, assumption)
  show ?thesis
    unfolding concat_level_def by (rule op_level_pass[where operand = "additive rec", OF 4]) (drule other, (erule conjE)+, assumption)
qed

lemma comparison_pass:
  assumes "concat_level rec p = Inr (e, q)" "quiet (PREDICATES @ [''NOT'']) (remaining q)"
  shows "comparison rec p = Inr (e, q)"
proof -
  have "\<not> predicate (peek q)" "\<not> keyword (peek q) ''NOT''"
    using quiet_keyword[OF assms(2)] by (auto simp: predicate_def list_ex_iff)
  then show ?thesis
    using assms(1) quiet_op[OF assms(2)] by (auto simp: comparison_def split: option.split token.split)
qed

lemma is_pass:
  assumes "comparison rec p = Inr (e, q)" "quiet [''ISNULL'', ''NOTNULL'', ''IS''] (remaining q)"
  shows "is_level rec p = Inr (e, q)"
  using assms(1) quiet_keyword[OF assms(2)] by (simp add: is_level_def eat_keyword_def)

lemma not_pass: "\<not> keyword (peek p) ''NOT'' \<Longrightarrow> not_level rec p = is_level rec p"
  by (simp add: not_level_def eat_keyword_def)

lemma conjunction_pass:
  assumes "operand p = Inr (e, q)" "\<not> keyword (peek q) word"
  shows "conjunction_level word operand p = Inr (e, q)"
  using assms by (simp add: conjunction_level_def eat_keyword_def)

lemma expression_pass:
  assumes "and_level (expression n) (p\<lparr>depth := Suc (depth p)\<rparr>) = Inr (e, skip k (p\<lparr>depth := Suc (depth p)\<rparr>))"
    "quiet [''OR''] (drop k (remaining p))" "depth p < MAX_DEPTH * 4"
  shows "expression (Suc n) p = Inr (e, skip k p)"
proof -
  have same: "remaining (p\<lparr>depth := Suc (depth p)\<rparr>) = remaining p" by (simp add: remaining_def)
  have "or_level (expression n) (p\<lparr>depth := Suc (depth p)\<rparr>) = Inr (e, skip k (p\<lparr>depth := Suc (depth p)\<rparr>))"
    unfolding or_level_def
    by (rule conjunction_pass, rule assms(1), rule quiet_keyword[of "[''OR'']"]) (simp_all add: assms(2) same)
  moreover have "leave (skip k (p\<lparr>depth := Suc (depth p)\<rparr>)) = skip k p" by (simp add: leave_def skip_def)
  ultimately show ?thesis using assms(3) by (simp add: enter_def)
qed

section \<open>Constructs\<close>

lemma render_first:
  assumes "renderable e"
  shows "\<exists>t us. render e = t # us \<and> \<not> keyword (Some t) ''SELECT'' \<and> \<not> keyword (Some t) ''WITH''"
proof -
  have words: "list_all (\<lambda>v. \<not> eq_ignore_ascii_case v ''SELECT'' \<and> \<not> eq_ignore_ascii_case v ''WITH'')
      [''NULL'', ''TRUE'', ''CAST'', ''TRY_CAST'', ''NOT'']"
    by code_simp
  have sep: "\<exists>us. separated s (map f (x # xs)) = hd (f x) # us" if "f x \<noteq> []" for s x xs and f :: "'a \<Rightarrow> token list"
    using that by (cases xs; cases "f x") auto
  show ?thesis
  proof (cases e)
    case (Literal l)
    then show ?thesis using words by (cases l) (auto simp: literal_token_def keyword_def)
  next
    case (Column parts)
    then obtain x xs where "parts = x # xs" using assms by (cases parts) auto
    then show ?thesis using Column sep[of "\<lambda>n. [Quoted n]" x Dot xs] by (auto simp: keyword_def)
  next
    case (Conjunction es)
    then obtain x xs where "es = x # xs" using assms by (cases es) auto
    then show ?thesis
      using Conjunction sep[of "\<lambda>e. paren (render e)" x "Ident ''AND''" xs] by (auto simp: keyword_def paren_def)
  qed (use assms words in \<open>auto simp: keyword_def paren_def\<close>)
qed

definition reads :: "nat \<Rightarrow> expr \<Rightarrow> bool" where
  "reads n e \<longleftrightarrow>
     (\<forall>p rest. remaining p = render e @ rest \<longrightarrow> closes rest \<longrightarrow> depth p + 2 * expr_height e < MAX_DEPTH * 4 \<longrightarrow>
        expression n p = Inr (e, skip (length (render e)) p))"

lemma closes_simps [simp]: "closes []" "closes (RParen # ts)" "closes (Comma # ts)" "closes (Ident ''AS'' # ts)"
  by (simp_all add: closes_def)

lemma paren_primary:
  assumes "renderable e" "reads n e" "remaining p = paren (render e) @ rest" "depth p + 2 * expr_height e < MAX_DEPTH * 4"
  shows "primary (expression n) p = Inr (e, skip (length (paren (render e))) p)"
proof -
  obtain t us where first: "render e = t # us" "\<not> keyword (Some t) ''SELECT''" "\<not> keyword (Some t) ''WITH''"
    using render_first[OF assms(1)] by blast
  have rem: "remaining (skip 1 p) = render e @ RParen # rest" using assms(3) by (simp add: paren_def)
  have "expression n (skip 1 p) = Inr (e, skip (length (render e)) (skip 1 p))"
    using assms(2,4) rem by (simp add: reads_def)
  moreover have "peek (skip 1 p) = Some t" using rem first by (simp add: peek_eq)
  moreover have "peek (skip (length (render e)) (skip 1 p)) = Some RParen" using assms(3) by (simp add: peek_eq paren_def)
  moreover have "peek p = Some LParen" using assms(3) by (simp add: peek_eq paren_def)
  ultimately show ?thesis
    using first by (simp add: primary_def bump_def parenthesized_def advance_skip expect_def paren_def)
qed

lemma paren_peek: "remaining p = paren ts @ rest \<Longrightarrow> peek p = Some LParen"
  by (simp add: peek_eq paren_def)

lemma keyword_LParen [simp]: "\<not> keyword (Some LParen) w" "\<not> keyword (Some Comma) w" "\<not> keyword (Some RParen) w"
    "\<not> keyword (Some (Quoted n)) w" "\<not> keyword (Some Str) w" "\<not> keyword (Some (Number s)) w"
  by (simp_all add: keyword_def)

text \<open>A parenthesized operand, up to the level that reads what follows it.\<close>

lemma paren_concat:
  assumes "renderable e" "reads n e" "remaining p = paren (render e) @ rest" "depth p + 2 * expr_height e < MAX_DEPTH * 4"
    "\<And>op us. rest = Op op # us \<Longrightarrow> op \<in> set COMPARISONS"
  shows "concat_level (expression n) p = Inr (e, skip (length (paren (render e))) p)"
proof (rule concat_pass[OF paren_primary[OF assms(1-4)]])
  show "peek p \<noteq> Some (Op op)" for op using paren_peek[OF assms(3)] by simp
  show "op \<in> set COMPARISONS" if "peek (skip (length (paren (render e))) p) = Some (Op op)" for op
    using that assms(3,5) by (auto simp: peek_eq split: list.splits)
qed

lemma quiet_not_op: "quiet ws ts \<Longrightarrow> ts \<noteq> Op op # us"
  by (auto simp: quiet_def)

lemma paren_comparison:
  assumes "renderable e" "reads n e" "remaining p = paren (render e) @ rest" "depth p + 2 * expr_height e < MAX_DEPTH * 4"
    "quiet (PREDICATES @ [''NOT'']) rest"
  shows "comparison (expression n) p = Inr (e, skip (length (paren (render e))) p)"
  by (rule comparison_pass[OF paren_concat[OF assms(1-4)]]) (use assms(3,5) quiet_not_op in auto)

lemma paren_is:
  assumes "renderable e" "reads n e" "remaining p = paren (render e) @ rest" "depth p + 2 * expr_height e < MAX_DEPTH * 4"
    "quiet (PREDICATES @ [''NOT'', ''ISNULL'', ''NOTNULL'', ''IS'']) rest"
  shows "is_level (expression n) p = Inr (e, skip (length (paren (render e))) p)"
  by (rule is_pass[OF paren_comparison[OF assms(1-4) quiet_subset[OF assms(5)]]])
    (use assms(3) quiet_subset[OF assms(5), of "[''ISNULL'', ''NOTNULL'', ''IS'']"] in auto)

lemma and_of_comparison:
  assumes "comparison rec p = Inr (e, q)" "\<not> keyword (peek p) ''NOT''" "closes (remaining q)"
  shows "and_level rec p = Inr (e, q)"
proof -
  note quiet = closes_quiet[OF assms(3)]
  have "not_level rec p = Inr (e, q)"
    unfolding not_pass[OF assms(2)]
    by (rule is_pass[OF assms(1) quiet_subset[OF quiet]]) (simp add: KEYWORDS_def)
  then show ?thesis
    unfolding and_level_def
    by (rule conjunction_pass[where operand = "not_level rec"]) (rule quiet_keyword[OF quiet], simp add: KEYWORDS_def)
qed

lemma and_of_primary:
  assumes "primary rec p = Inr (e, q)" "\<And>op. peek p \<noteq> Some (Op op)" "\<not> keyword (peek p) ''NOT''" "closes (remaining q)"
  shows "and_level rec p = Inr (e, q)"
proof (rule and_of_comparison[OF comparison_pass[OF concat_pass[OF assms(1,2)]] assms(3,4)])
  note quiet = closes_quiet[OF assms(4)]
  show "op \<in> set COMPARISONS" if "peek q = Some (Op op)" for op using that quiet_op[OF quiet] by simp
  show "quiet (PREDICATES @ [''NOT'']) (remaining q)" by (rule quiet_subset[OF quiet]) (auto simp: KEYWORDS_def)
qed

lemma readsI:
  assumes "\<And>p rest. remaining p = render e @ rest \<Longrightarrow> closes rest \<Longrightarrow> depth p + 2 * expr_height e \<le> MAX_DEPTH * 4 \<Longrightarrow>
      and_level (expression n) p = Inr (e, skip (length (render e)) p)"
  shows "reads (Suc n) e"
  unfolding reads_def
proof (intro allI impI)
  fix p rest
  assume a: "remaining p = render e @ rest" "closes rest" "depth p + 2 * expr_height e < MAX_DEPTH * 4"
  show "expression (Suc n) p = Inr (e, skip (length (render e)) p)"
  proof (rule expression_pass)
    show "and_level (expression n) (p\<lparr>depth := Suc (depth p)\<rparr>) = Inr (e, skip (length (render e)) (p\<lparr>depth := Suc (depth p)\<rparr>))"
      by (rule assms[OF _ a(2)]) (use a in \<open>simp_all add: remaining_def\<close>)
    show "quiet [''OR''] (drop (length (render e)) (remaining p))"
      using a quiet_subset[OF closes_quiet[OF a(2)], of "[''OR'']"] by (simp add: KEYWORDS_def)
  qed (use a in simp)
qed

end
