(* ===== verification/Sql_Round.thy ===== *)
theory Sql_Round
  imports Sql_Render
begin

text \<open>
  The round trip of the parser of \<open>src/vgi/src/sql_expression.rs\<close>: each construct of \<open>Sql_Render\<close>, and with
  them every rendered tree, is read back by the level it belongs to.
\<close>

lemma separated_concat: "separated s (t # ts) = t @ concat (map (\<lambda>u. s # u) ts)"
  by (induction ts arbitrary: t) simp_all

lemma literal_values:
  "number ''1'' = IntegerLit" "number ''1.5'' = OtherNumericLit"
  "map to_ascii_uppercase ''NULL'' = ''NULL''" "map to_ascii_uppercase ''TRUE'' = ''TRUE''"
  "map to_ascii_uppercase ''CAST'' = ''CAST''" "map to_ascii_uppercase ''TRY_CAST'' = ''TRY_CAST''"
  by code_simp+

lemma not_words:
  "\<not> keyword (Some (Ident ''NULL'')) ''NOT''" "\<not> keyword (Some (Ident ''TRUE'')) ''NOT''"
  "\<not> keyword (Some (Ident ''CAST'')) ''NOT''" "\<not> keyword (Some (Ident ''TRY_CAST'')) ''NOT''"
  by code_simp+

lemma reads_literal: "reads (Suc n) (Literal l)"
proof (rule readsI, rule and_of_primary)
  fix p rest assume a: "remaining p = render (Literal l) @ rest" "closes rest"
  then have peek: "peek p = Some (literal_token l)" by (simp add: peek_eq)
  then show "peek p \<noteq> Some (Op op)" for op by (cases l) (simp_all add: literal_token_def)
  show "\<not> keyword (peek p) ''NOT''" using peek not_words by (cases l) (simp_all add: literal_token_def)
  show "primary (expression n) p = Inr (Literal l, skip (length (render (Literal l))) p)"
    using peek literal_values
    by (cases l) (simp_all add: literal_token_def primary_def bump_def word_primary_def advance_skip)
  show "closes (remaining (skip (length (render (Literal l))) p))" using a by simp
qed

lemma closes_name:
  assumes "closes rest"
  shows "name_parts rest = Inr (Some [], rest)" "rest \<noteq> LParen # ts"
  using assms by (auto simp: closes_def split: list.splits)

lemma name_parts_quoted:
  "closes rest \<Longrightarrow> name_parts (concat (map (\<lambda>n. [Dot, Quoted n]) xs) @ rest) = Inr (Some xs, rest)"
  by (induction xs) (simp_all add: closes_name name_token_def)

lemma length_dotted: "length (concat (map (\<lambda>n. [Dot, Quoted n]) xs)) = 2 * length xs"
  by (induction xs) simp_all

lemma reads_column:
  assumes "parts \<noteq> []"
  shows "reads (Suc n) (Column parts)"
proof (rule readsI, rule and_of_primary)
  obtain x xs where parts: "parts = x # xs" using assms by (cases parts) auto
  have r: "render (Column parts) = Quoted x # concat (map (\<lambda>n. [Dot, Quoted n]) xs)"
    unfolding parts render.simps list.map(2) separated_concat by (simp add: comp_def)
  fix p rest assume a: "remaining p = render (Column parts) @ rest" "closes rest"
  have p: "peek p = Some (Quoted x)" using a r by (simp add: peek_eq)
  then show "peek p \<noteq> Some (Op op)" "\<not> keyword (peek p) ''NOT''" for op by simp_all
  have rem: "remaining (skip 1 p) = concat (map (\<lambda>n. [Dot, Quoted n]) xs) @ rest" using a r by simp
  have seek: "seek rest (skip 1 p) = skip (length (render (Column parts))) p"
    unfolding seek_skip rem r by (simp add: length_dotted)
  have "peek (skip (length (render (Column parts))) p) \<noteq> Some LParen"
    using a closes_name(2)[OF a(2)] by (auto simp: peek_eq split: list.split)
  then show "primary (expression n) p = Inr (Column parts, skip (length (render (Column parts))) p)"
    using p rem seek parts name_parts_quoted[OF a(2), of xs]
    by (simp add: primary_def bump_def name_tail_def advance_skip del: skip_simps(4) render.simps)
  show "closes (remaining (skip (length (render (Column parts))) p))" using a by simp
qed

lemma paren_expression:
  assumes "renderable e" "reads m e" "remaining p = paren (render e) @ rest" "closes rest"
    "depth p + 2 * expr_height e + 1 < MAX_DEPTH * 4"
  shows "expression (Suc m) p = Inr (e, skip (length (paren (render e))) p)"
proof (rule expression_pass)
  let ?q = "p\<lparr>depth := Suc (depth p)\<rparr>"
  have rem: "remaining ?q = paren (render e) @ rest" using assms(3) by (simp add: remaining_def)
  show "and_level (expression m) ?q = Inr (e, skip (length (paren (render e))) ?q)"
    by (rule and_of_primary[OF paren_primary[OF assms(1,2) rem]])
      (use assms(4,5) rem paren_peek[OF rem] in auto)
  show "quiet [''OR''] (drop (length (paren (render e))) (remaining p))"
    using assms(3) quiet_subset[OF closes_quiet[OF assms(4)], of "[''OR'']"] by (simp add: KEYWORDS_def)
qed (use assms(5) in simp)

lemma reads_compare:
  assumes "renderable a" "renderable b" "reads n a" "reads n b"
  shows "reads (Suc n) (Compare a b)"
proof (rule readsI, rule and_of_comparison)
  fix p rest
  assume h: "remaining p = render (Compare a b) @ rest" "closes rest"
    "depth p + 2 * expr_height (Compare a b) \<le> MAX_DEPTH * 4"
  let ?q = "skip (length (paren (render a))) p"
  have rem: "remaining p = paren (render a) @ Op ''='' # paren (render b) @ rest" using h(1) by simp
  have d: "depth p + 2 * expr_height a < MAX_DEPTH * 4" "depth p + 2 * expr_height b < MAX_DEPTH * 4"
    using h(3) by (auto simp: below_def)
  have left: "concat_level (expression n) p = Inr (a, ?q)"
    by (rule paren_concat[OF assms(1,3) rem d(1)]) (simp add: COMPARISONS_def)
  have op: "peek ?q = Some (Op ''='')" using rem by (simp add: peek_eq)
  have rem2: "remaining (skip 1 ?q) = paren (render b) @ rest" using rem by simp
  have right: "concat_level (expression n) (skip 1 ?q) = Inr (b, skip (length (paren (render b))) (skip 1 ?q))"
    by (rule paren_concat[OF assms(2,4) rem2]) (use d(2) quiet_not_op[OF closes_quiet[OF h(2)]] in auto)
  show "comparison (expression n) p = Inr (Compare a b, skip (length (render (Compare a b))) p)"
    using left op right
    by (simp add: comparison_def predicate_def PREDICATES_def keyword_def advance_skip COMPARISONS_def)
  show "\<not> keyword (peek p) ''NOT''" using paren_peek[OF rem] by simp
  show "closes (remaining (skip (length (render (Compare a b))) p))" using h by simp
qed

lemma reads_is_null:
  assumes "renderable e" "reads n e"
  shows "reads (Suc n) (IsNull e)"
proof (rule readsI)
  fix p rest
  assume h: "remaining p = render (IsNull e) @ rest" "closes rest"
    "depth p + 2 * expr_height (IsNull e) \<le> MAX_DEPTH * 4"
  let ?q = "skip (length (paren (render e))) p"
  note quiet = closes_quiet[OF h(2)]
  have rem: "remaining p = paren (render e) @ Ident ''ISNULL'' # rest" using h(1) by simp
  have "comparison (expression n) p = Inr (e, ?q)"
    by (rule paren_comparison[OF assms rem _ isnull_quiet]) (use h(3) in \<open>simp add: below_def\<close>)
  moreover define r where "r = skip 1 ?q"
  moreover have "eat_keyword ''ISNULL'' ?q = Some r"
    using rem by (simp add: r_def eat_keyword_def peek_eq keyword_def advance_skip)
  moreover have "eat_keyword w r = None" if "w \<in> set KEYWORDS" for w
    unfolding eat_keyword_def using quiet_keyword[OF _ that, of r] rem quiet by (simp add: r_def)
  then have "eat_keyword ''ISNULL'' r = None" "eat_keyword ''NOTNULL'' r = None" "eat_keyword ''IS'' r = None"
    by (simp_all add: KEYWORDS_def)
  moreover have "length (remaining ?q) = Suc (length rest)" using rem by simp
  ultimately have is_ok: "is_level (expression n) p = Inr (IsNull e, skip 1 ?q)"
    by (simp add: is_level_def del: skip_simps)
  have "not_level (expression n) p = Inr (IsNull e, skip 1 ?q)"
    using is_ok not_pass[of p] paren_peek[OF rem] by simp
  then have "and_level (expression n) p = Inr (IsNull e, skip 1 ?q)"
    unfolding and_level_def
    by (rule conjunction_pass[where operand = "not_level (expression n)"])
      (rule quiet_keyword[of KEYWORDS], use rem quiet in \<open>simp_all add: KEYWORDS_def\<close>)
  then show "and_level (expression n) p = Inr (IsNull e, skip (length (render (IsNull e))) p)" by simp
qed

lemma reads_not:
  assumes "renderable e" "reads n e"
  shows "reads (Suc n) (Not e)"
proof (rule readsI)
  fix p rest
  assume h: "remaining p = render (Not e) @ rest" "closes rest"
    "depth p + 2 * expr_height (Not e) \<le> MAX_DEPTH * 4"
  note quiet = closes_quiet[OF h(2)]
  let ?q = "(skip 1 p)\<lparr>depth := Suc (depth p)\<rparr>"
  let ?L = "length (paren (render e))"
  have d: "depth p + 2 * expr_height e + 1 < MAX_DEPTH * 4" using h(3) by (simp add: below_def)
  have rem: "remaining ?q = paren (render e) @ rest" using h(1) by (simp add: remaining_def skip_def drop_Suc drop_tl)
  have "is_level (expression n) ?q = Inr (e, skip ?L ?q)"
    by (rule paren_is[OF assms rem _ quiet_subset[OF quiet]]) (use d in \<open>auto simp: KEYWORDS_def\<close>)
  then have inner: "not_loop (expression n) (Suc k) ?q = Inr (e, skip ?L ?q)" for k
    using paren_peek[OF rem] by (simp add: eat_keyword_def)
  have "eat_keyword ''NOT'' p = Some (skip 1 p)"
    using h(1) by (simp add: eat_keyword_def peek_eq keyword_def advance_skip)
  moreover have "enter (skip 1 p) = Inr ?q" using d by (simp add: enter_def)
  moreover have "length (remaining p) = Suc (length (paren (render e) @ rest))" using h(1) by simp
  moreover have "leave (skip ?L ?q) = skip (length (render (Not e))) p" by (simp add: leave_def skip_def)
  ultimately have "not_level (expression n) p = Inr (Not e, skip (length (render (Not e))) p)"
    using inner by (simp add: not_level_def del: not_loop.simps(2)) (simp only: not_loop.simps(2) option.case rbind_simps prod.case)
  then show "and_level (expression n) p = Inr (Not e, skip (length (render (Not e))) p)"
    unfolding and_level_def
    by (rule conjunction_pass[where operand = "not_level (expression n)"])
      (rule quiet_keyword[of KEYWORDS], use h(1) quiet in \<open>simp_all add: KEYWORDS_def\<close>)
qed

text \<open>Chains: operands joined by \<open>AND\<close>, and the arguments of a call.\<close>

definition chain :: "token \<Rightarrow> expr list \<Rightarrow> token list" where
  "chain s es = concat (map (\<lambda>e. s # paren (render e)) es)"

lemma chain_simps [simp]: "chain s [] = []" "chain s (e # es) = s # paren (render e) @ chain s es"
  by (simp_all add: chain_def)

lemma separated_chain:
  "separated s (map (\<lambda>e. paren (render e)) (e # es)) = paren (render e) @ chain s es"
  unfolding list.map(2) separated_concat by (simp add: chain_def comp_def)

lemma chain_quiet:
  assumes "closes rest"
  shows "quiet (PREDICATES @ [''NOT'', ''ISNULL'', ''NOTNULL'', ''IS'']) (chain (Ident ''AND'') es @ rest)"
proof (cases es)
  case Nil
  have "quiet (PREDICATES @ [''NOT'', ''ISNULL'', ''NOTNULL'', ''IS'']) rest"
    by (rule quiet_subset[OF closes_quiet[OF assms]]) (auto simp: KEYWORDS_def)
  then show ?thesis using Nil by simp
qed (use and_quiet in simp)

lemma paren_not_level:
  assumes "renderable e" "reads n e" "remaining p = paren (render e) @ chain (Ident ''AND'') es @ rest" "closes rest"
    "depth p + 2 * expr_height e < MAX_DEPTH * 4"
  shows "not_level (expression n) p = Inr (e, skip (length (paren (render e))) p)"
  using paren_is[OF assms(1-3,5) chain_quiet[OF assms(4)]] not_pass[of p] paren_peek[OF assms(3)] by simp

lemma conjunction_loop_reads:
  assumes "closes rest"
  shows "\<forall>e \<in> set es. renderable e \<and> reads n e \<and> depth p + 2 * expr_height e < MAX_DEPTH * 4 \<Longrightarrow> length es < k \<Longrightarrow>
    remaining p = chain (Ident ''AND'') es @ rest \<Longrightarrow>
    conjunction_loop ''AND'' (not_level (expression n)) k parts p
      = Inr (parts @ es, skip (length (chain (Ident ''AND'') es)) p)"
proof (induction es arbitrary: k parts p)
  case Nil
  have "quiet KEYWORDS (remaining p)" using closes_quiet[OF assms] Nil.prems(3) by simp
  then have "\<not> keyword (peek p) ''AND''" by (rule quiet_keyword) (simp add: KEYWORDS_def)
  then show ?case using Nil.prems(2) by (cases k) (simp_all add: eat_keyword_def)
next
  case (Cons e es)
  obtain j where k: "k = Suc j" "length es < j" using Cons.prems(2) by (cases k) auto
  have eat: "eat_keyword ''AND'' p = Some (skip 1 p)"
    using Cons.prems(3) by (simp add: eat_keyword_def peek_eq keyword_def advance_skip)
  have rem: "remaining (skip 1 p) = paren (render e) @ chain (Ident ''AND'') es @ rest" using Cons.prems(3) by simp
  have "not_level (expression n) (skip 1 p) = Inr (e, skip (length (paren (render e))) (skip 1 p))"
    by (rule paren_not_level[OF _ _ rem assms]) (use Cons.prems(1) in simp_all)
  moreover have "conjunction_loop ''AND'' (not_level (expression n)) j (parts @ [e]) (skip (length (paren (render e))) (skip 1 p))
      = Inr ((parts @ [e]) @ es, skip (length (chain (Ident ''AND'') es)) (skip (length (paren (render e))) (skip 1 p)))"
    by (rule Cons.IH[OF _ k(2)]) (use Cons.prems(1,3) in simp_all)
  ultimately show ?case using eat k(1) by simp
qed

lemma expr_height_member: "e \<in> set es \<Longrightarrow> expr_height e < below (map expr_height es)"
  using below_le_iff[of 0 "map expr_height es" "below (map expr_height es)"] by auto

lemma chain_length: "length es \<le> length (chain s es)"
  by (induction es) auto

lemma reads_conjunction:
  assumes "2 \<le> length es" "\<And>e. e \<in> set es \<Longrightarrow> renderable e \<and> reads n e"
  shows "reads (Suc n) (Conjunction es)"
proof (rule readsI)
  obtain e fs where es: "es = e # fs" "fs \<noteq> []" using assms(1) by (cases es; cases "tl es") auto
  have r: "render (Conjunction es) = paren (render e) @ chain (Ident ''AND'') fs"
    unfolding es render.simps separated_chain ..
  fix p rest
  assume h: "remaining p = render (Conjunction es) @ rest" "closes rest"
    "depth p + 2 * expr_height (Conjunction es) \<le> MAX_DEPTH * 4"
  let ?q = "skip (length (paren (render e))) p"
  have d: "depth p + 2 * expr_height f < MAX_DEPTH * 4" if "f \<in> set es" for f
    using expr_height_member[OF that] h(3) by simp
  have rem: "remaining p = paren (render e) @ chain (Ident ''AND'') fs @ rest" using h(1) r by simp
  have "not_level (expression n) p = Inr (e, ?q)"
    by (rule paren_not_level[OF _ _ rem h(2)]) (use assms(2) d es in auto)
  moreover have "conjunction_loop ''AND'' (not_level (expression n)) (turns ?q) [e] ?q
      = Inr ([e] @ fs, skip (length (chain (Ident ''AND'') fs)) ?q)"
    by (rule conjunction_loop_reads[OF h(2)])
      (use assms(2) d es rem chain_length[of fs "Ident ''AND''"] in auto)
  ultimately show "and_level (expression n) p = Inr (Conjunction es, skip (length (render (Conjunction es))) p)"
    unfolding and_level_def conjunction_level_def r using es
    by (simp del: conjunction_loop.simps render.simps)
qed

lemma call_args_reads:
  "\<forall>f \<in> set (e # es). renderable f \<and> reads m f \<and> depth p + 2 * expr_height f + 1 < MAX_DEPTH * 4 \<Longrightarrow> length es < k \<Longrightarrow>
   remaining p = paren (render e) @ chain Comma es @ RParen # rest \<Longrightarrow>
   call_args (expression (Suc m)) k args False p
     = Inr ((args @ e # es, False), skip (length (paren (render e) @ chain Comma es) + 1) p)"
proof (induction es arbitrary: e k args p)
  case Nil
  let ?q = "skip (length (paren (render e))) p"
  have "expression (Suc m) p = Inr (e, ?q)"
    by (rule paren_expression[where rest = "RParen # rest"]) (use Nil.prems in simp_all)
  moreover have "skip_argument_name p = (False, p)"
    using paren_peek[OF Nil.prems(3)] by (simp add: skip_argument_name_def name_token_def)
  moreover have "peek ?q = Some RParen" using Nil.prems(3) by (simp add: peek_eq)
  moreover from this have "skip_order ?q = (False, ?q)" by (simp add: skip_order_def eat_keyword_def)
  ultimately show ?case using Nil.prems(2) by (cases k) (simp_all add: bump_def advance_skip del: expression.simps)
next
  case (Cons f es)
  obtain j where k: "k = Suc j" "length es < j" using Cons.prems(2) by (cases k) auto
  let ?q = "skip (length (paren (render e))) p"
  have "expression (Suc m) p = Inr (e, ?q)"
    by (rule paren_expression[where rest = "chain Comma (f # es) @ RParen # rest"]) (use Cons.prems in simp_all)
  moreover have "skip_argument_name p = (False, p)"
    using paren_peek[OF Cons.prems(3)] by (simp add: skip_argument_name_def name_token_def)
  moreover have "peek ?q = Some Comma" using Cons.prems(3) by (simp add: peek_eq)
  moreover from this have "skip_order ?q = (False, ?q)" by (simp add: skip_order_def eat_keyword_def)
  moreover have "call_args (expression (Suc m)) j (args @ [e]) False (skip 1 ?q)
      = Inr (((args @ [e]) @ f # es, False), skip (length (paren (render f) @ chain Comma es) + 1) (skip 1 ?q))"
    by (rule Cons.IH[OF _ k(2)]) (use Cons.prems(1,3) in simp_all)
  ultimately show ?case using k(1) by (simp add: bump_def advance_skip add.assoc del: expression.simps)
qed

lemma call_list_reads:
  assumes "\<And>e. e \<in> set es \<Longrightarrow> renderable e \<and> reads m e \<and> depth p + 2 * expr_height e + 1 < MAX_DEPTH * 4"
    "remaining p = separated Comma (map (\<lambda>e. paren (render e)) es) @ RParen # rest"
  shows "call_list (expression (Suc m)) p
    = Inr ((es, False), skip (length (separated Comma (map (\<lambda>e. paren (render e)) es)) + 1) p)"
proof (cases es)
  case Nil
  then have "peek p = Some RParen" using assms(2) by (simp add: peek_eq)
  then show ?thesis using Nil by (simp add: call_list_def eat_keyword_def advance_skip)
next
  case (Cons e fs)
  have rem: "remaining p = paren (render e) @ chain Comma fs @ RParen # rest"
    using assms(2) unfolding Cons separated_chain by simp
  have "call_args (expression (Suc m)) (turns p) [] False p
      = Inr (([] @ e # fs, False), skip (length (paren (render e) @ chain Comma fs) + 1) p)"
    by (rule call_args_reads) (use assms(1) Cons rem chain_length[of fs Comma] in auto)
  then show ?thesis
    unfolding Cons separated_chain using paren_peek[OF rem]
    by (simp add: call_list_def eat_keyword_def is_op_def del: call_args.simps expression.simps)
qed

lemma closes_call:
  assumes "closes (remaining p)" "w \<in> {''FILTER'', ''OVER'', ''WITHIN''}"
  shows "\<not> keyword (peek p) w"
proof -
  have "list_all (\<lambda>w. \<not> eq_ignore_ascii_case ''AS'' w) [''FILTER'', ''OVER'', ''WITHIN'']" by code_simp
  then show ?thesis
    using assms by (auto simp: closes_def peek_eq keyword_def list_all_iff split: list.splits)
qed

lemma reads_call:
  assumes e: "e = (if eq_ignore_ascii_case name ''coalesce'' then Coalesce es else Function name False es False)"
    and r: "render e = Quoted name # LParen # separated Comma (map (\<lambda>e. paren (render e)) es) @ [RParen]"
    and es: "\<And>f. f \<in> set es \<Longrightarrow> renderable f \<and> reads m f"
  shows "reads (Suc (Suc m)) e"
proof (rule readsI, rule and_of_primary)
  have h: "expr_height e = below (map expr_height es)" using e by simp
  fix p rest
  assume a: "remaining p = render e @ rest" "closes rest" "depth p + 2 * expr_height e \<le> MAX_DEPTH * 4"
  let ?ts = "separated Comma (map (\<lambda>e. paren (render e)) es)"
  have rem: "remaining (skip 2 p) = ?ts @ RParen # rest" "remaining (skip 1 p) = LParen # ?ts @ RParen # rest"
    using a(1) r by (simp_all add: numeral_2_eq_2)
  have p: "peek p = Some (Quoted name)" using a r by (simp add: peek_eq)
  then show "peek p \<noteq> Some (Op op)" "\<not> keyword (peek p) ''NOT''" for op by simp_all
  have "depth (skip 2 p) + 2 * expr_height f + 1 < MAX_DEPTH * 4" if "f \<in> set es" for f
    using expr_height_member[OF that] a(3) h by simp
  then have call: "call_list (expression (Suc m)) (skip 2 p) = Inr ((es, False), skip (length ?ts + 1) (skip 2 p))"
    by (intro call_list_reads[OF _ rem(1)]) (use es in auto)
  have len: "skip (length ?ts + 1) (skip 2 p) = skip (length (render e)) p" using r by simp
  show c: "closes (remaining (skip (length (render e)) p))" using a by simp
  have "seek (LParen # ?ts @ RParen # rest) (skip 1 p) = skip 1 p" unfolding seek_skip rem by simp
  moreover have "peek (skip 1 p) = Some LParen" using rem(2) by (simp add: peek_eq)
  moreover have "advance (skip 1 p) = skip 2 p" by (simp add: advance_skip numeral_2_eq_2)
  ultimately have "name_tail (expression (Suc m)) name (skip 1 p) = Inr (e, skip (length (render e)) p)"
    unfolding name_tail_def rem(2) using call[unfolded len] closes_call[OF c] e
    by (simp del: expression.simps skip_simps)
  then show "primary (expression (Suc m)) p = Inr (e, skip (length (render e)) p)"
    using p by (simp add: primary_def bump_def advance_skip del: expression.simps)
qed

lemma type_name_reads:
  assumes "remaining p = Quoted name # RParen # rest" "map to_ascii_uppercase name = name"
  shows "type_name p = Inr ((name, False), skip 1 p)"
proof -
  have "type_parts (remaining p) = Some ([name], RParen # rest)" using assms(1) by (simp add: name_token_def)
  moreover have "seek (RParen # rest) p = skip 1 p" using assms(1) by (simp add: seek_skip)
  moreover have peek: "peek (skip 1 p) = Some RParen" using assms(1) by (simp add: peek_eq)
  moreover have "second_word v w (name, skip 1 p) = (name, skip 1 p)" for v w
    using peek by (simp add: second_word_def eat_keyword_def)
  ultimately show ?thesis using assms(2) by (simp add: type_name_def is_op_def)
qed

lemma reads_cast:
  assumes "renderable e" "reads m e" "map to_ascii_uppercase name = name"
  shows "reads (Suc (Suc m)) (Cast t False name e)"
proof (rule readsI, rule and_of_primary)
  let ?w = "if t then ''TRY_CAST'' else ''CAST''"
  let ?L = "length (paren (render e))"
  fix p rest
  assume a: "remaining p = render (Cast t False name e) @ rest" "closes rest"
    "depth p + 2 * expr_height (Cast t False name e) \<le> MAX_DEPTH * 4"
  have rem: "remaining (skip 2 p) = paren (render e) @ Ident ''AS'' # Quoted name # RParen # rest"
    using a(1) by (simp add: numeral_2_eq_2)
  define q where "q = skip ?L (skip 2 p)"
  have remq: "remaining q = Ident ''AS'' # Quoted name # RParen # rest"
    unfolding q_def skip_simps(4)[of ?L "skip 2 p"] rem by simp
  have p: "peek p = Some (Ident ?w)" using a(1) by (simp add: peek_eq)
  then show "peek p \<noteq> Some (Op op)" for op by simp
  show "\<not> keyword (peek p) ''NOT''" using p not_words by simp
  have paren: "peek (skip 1 p) = Some LParen" using a(1) by (simp add: peek_eq)
  have child: "expression (Suc m) (skip 2 p) = Inr (e, q)"
    unfolding q_def by (rule paren_expression[OF assms(1,2) rem]) (use a(3) in \<open>simp_all add: below_def\<close>)
  have eat: "eat_keyword ''AS'' q = Some (skip 1 q)"
    using remq by (simp add: eat_keyword_def peek_eq keyword_def advance_skip)
  have name: "type_name (skip 1 q) = Inr ((name, False), skip 1 (skip 1 q))"
    by (rule type_name_reads[OF _ assms(3)]) (simp add: remq)
  have close: "expect RParen (skip 1 (skip 1 q)) = Inr (skip 3 q)"
    using remq by (simp add: expect_def peek_eq advance_skip numeral_3_eq_3)
  have "skip 3 q = skip (length (render (Cast t False name e))) p"
    by (simp add: q_def eval_nat_numeral)
  then have "cast_call (expression (Suc m)) t (skip 2 p)
      = Inr (Cast t False name e, skip (length (render (Cast t False name e))) p)"
    unfolding cast_call_def using child eat name close by (simp del: expression.simps skip_simps(1))
  moreover have "advance (skip 1 p) = skip 2 p" by (simp add: advance_skip numeral_2_eq_2)
  ultimately have "word_primary (expression (Suc m)) ?w (skip 1 p)
      = Inr (Cast t False name e, skip (length (render (Cast t False name e))) p)"
    using paren literal_values
    by (cases t) (simp_all add: word_primary_def del: expression.simps skip_simps(1) render.simps)
  then show "primary (expression (Suc m)) p = Inr (Cast t False name e, skip (length (render (Cast t False name e))) p)"
    using p by (simp add: primary_def bump_def advance_skip del: expression.simps render.simps)
  show "closes (remaining (skip (length (render (Cast t False name e))) p))" using a by simp
qed

section \<open>Every tree is read back\<close>

lemma reads_render: "renderable e \<Longrightarrow> 2 * expr_height e + 1 < n \<Longrightarrow> reads n e"
proof (induction e arbitrary: n)
  case (Literal l)
  then show ?case using reads_literal by (cases n) simp_all
next
  case (Column parts)
  then show ?case using reads_column by (cases n) simp_all
next
  case (Cast t q name e)
  then obtain m where "n = Suc (Suc m)" "2 * expr_height e + 1 < m"
    by (cases n; cases "n - 1") (auto simp: below_def)
  then show ?case using Cast reads_cast by simp
next
  case (Compare a b)
  then obtain m where "n = Suc m" "2 * expr_height a + 1 < m" "2 * expr_height b + 1 < m"
    by (cases n) (auto simp: below_def)
  then show ?case using Compare reads_compare by simp
next
  case (Conjunction es)
  then obtain m where m: "n = Suc m" "2 * below (map expr_height es) < m" by (cases n) auto
  have "renderable e \<and> reads m e" if "e \<in> set es" for e
    using Conjunction that expr_height_member[OF that] m(2) by (auto simp: list_all_iff)
  then show ?case using reads_conjunction m(1) Conjunction.prems(1) by simp
next
  case (Not e)
  then obtain m where "n = Suc m" "2 * expr_height e + 1 < m" by (cases n) (auto simp: below_def)
  then show ?case using Not reads_not by simp
next
  case (IsNull e)
  then obtain m where "n = Suc m" "2 * expr_height e + 1 < m" by (cases n) (auto simp: below_def)
  then show ?case using IsNull reads_is_null by simp
next
  case (Coalesce es)
  then obtain m where m: "n = Suc (Suc m)" "2 * below (map expr_height es) \<le> m"
    by (cases n; cases "n - 1") auto
  have "renderable e \<and> reads m e" if "e \<in> set es" for e
    using Coalesce that expr_height_member[OF that] m(2) by (auto simp: list_all_iff)
  then show ?case unfolding m(1) by (intro reads_call[of _ "''coalesce''" es]) simp_all
next
  case (Function name q es d)
  then obtain m where m: "n = Suc (Suc m)" "2 * below (map expr_height es) \<le> m"
    by (cases n; cases "n - 1") auto
  have "renderable e \<and> reads m e" if "e \<in> set es" for e
    using Function that expr_height_member[OF that] m(2) by (auto simp: list_all_iff)
  then show ?case unfolding m(1) using Function.prems(1) by (intro reads_call[of _ name es]) simp_all
qed simp

text \<open>C5: Every tree of the grammar is reachable by a text: the tokens that spell an expression with its
  operands in parentheses parse back to exactly that expression, for every tree no deeper than the
  generated-column limit, whatever names, casts, calls, comparisons, negations, null tests and
  conjunctions it nests. So each precedence level reads its own construct, leaves what follows to
  the level it belongs to, and the parser's nesting limit never cuts off what the grammar allows.\<close>

theorem parse_render:
  assumes "renderable e" "expr_height e \<le> MAX_DEPTH"
  shows "parse_tokens (render e) = Inr e"
proof -
  let ?p = "\<lparr>tokens = render e, pos = 0, depth = 0\<rparr>"
  have "reads NESTED_CALLS e"
    by (rule reads_render[OF assms(1)]) (use assms(2) in \<open>simp add: NESTED_CALLS_def MAX_DEPTH_def\<close>)
  moreover have "remaining ?p = render e @ []" by (simp add: remaining_def)
  moreover have "depth ?p + 2 * expr_height e < MAX_DEPTH * 4" using assms(2) by (simp add: MAX_DEPTH_def)
  ultimately have "expression NESTED_CALLS ?p = Inr (e, skip (length (render e)) ?p)"
    unfolding reads_def using closes_simps(1) by blast
  then show ?thesis by (simp add: parse_tokens_def skip_def)
qed

definition sample_expr :: expr where
  "sample_expr =
     Conjunction
       [Compare (Cast False False ''BIGINT'' (Column [''price''])) (Literal IntegerLit),
        Not (IsNull (Coalesce [Column [''a''], Function ''upper'' False [Literal VarcharLit] False]))]"

theorem parse_render_witness: "parse_tokens (render sample_expr) = Inr sample_expr"
proof (rule parse_render)
  show "renderable sample_expr" by code_simp
  show "expr_height sample_expr \<le> MAX_DEPTH" by code_simp
qed

end
