(* ===== verification/Challenge.thy ===== *)
theory Challenge
  imports Rust_Str
begin

text \<open>
  The \<open>WWW-Authenticate\<close> challenge that starts OAuth discovery, \<open>src/vgi-client/src/auth/challenge.rs\<close>: the
  scheme, the parameters and the challenge they make. The characters the parser looks at are ASCII, so
  working on the UTF-8 bytes splits where the code's characters do; only the slice of the scheme
  depends on a character boundary, and off one it panics. Lower-casing beyond ASCII is a parameter.
\<close>

record oauth_challenge =
  resource_metadata :: string
  client_id :: "string option"
  client_secret :: "string option"
  device_code_client_id :: "string option"
  device_code_client_secret :: "string option"
  use_id_token_as_bearer :: bool

datatype 'a slicing = Panicked | Sliced 'a

section \<open>The scheme\<close>

definition trim_start :: "string \<Rightarrow> string" where
  "trim_start s = strip_spaces (length s) WHITE_SPACE s"

definition strip_scheme :: "string \<Rightarrow> string \<Rightarrow> string option slicing" where
  "strip_scheme header scheme =
     (let h = trim_start header
      in if length h < length scheme then Sliced None
         else if \<not> is_char_boundary h (length scheme) then Panicked
         else if \<not> eq_ignore_ascii_case (take (length scheme) h) scheme then Sliced None
         else let rest = drop (length scheme) h
              in if rest \<noteq> [] \<and> \<not> is_ascii_whitespace (hd rest) then Sliced None
                 else Sliced (Some (trim_start rest)))"

section \<open>Parameters\<close>

definition name_char :: "char \<Rightarrow> bool" where
  "name_char c \<longleftrightarrow> c \<noteq> CHR ''='' \<and> c \<noteq> CHR '','' \<and> \<not> is_ascii_whitespace c"

fun quoted_value :: "string \<Rightarrow> string \<times> string" where
  "quoted_value [] = ([], [])"
| "quoted_value (c # cs) =
     (if c = CHR 0x5C \<and> cs \<noteq> [] then (let (v, r) = quoted_value (tl cs) in (hd cs # v, r))
      else if c = CHR 0x22 then ([], cs)
      else (let (v, r) = quoted_value cs in (c # v, r)))"

definition param_value :: "string \<Rightarrow> string \<times> string" where
  "param_value s =
     (case s of
        c # cs \<Rightarrow> if c = CHR 0x22 then quoted_value cs
                  else (takeWhile (\<lambda>c. c \<noteq> CHR '','' \<and> \<not> is_ascii_whitespace c) s,
                        dropWhile (\<lambda>c. c \<noteq> CHR '','' \<and> \<not> is_ascii_whitespace c) s)
      | [] \<Rightarrow> ([], []))"

lemma quoted_value_length: "quoted_value s = (v, r) \<Longrightarrow> length r \<le> length s"
proof (induction s arbitrary: v rule: quoted_value.induct)
  case (2 c cs)
  show ?case
  proof (cases "c = CHR 0x5C \<and> cs \<noteq> []")
    case True
    then have "length r \<le> length (tl cs)" using 2 by (auto split: prod.splits)
    then show ?thesis by simp
  next
    case False
    show ?thesis
    proof (cases "c = CHR 0x22")
      case quote: False
      then obtain w where "quoted_value cs = (w, r)" using "2.prems" False by (auto split: prod.splits)
      then show ?thesis using "2.IH"(2)[OF False quote] by fastforce
    qed (use "2.prems" False in auto)
  qed
qed simp

lemma param_value_length: "length (snd (param_value s)) \<le> length s"
proof (cases s)
  case (Cons c cs)
  then show ?thesis
    using quoted_value_length[of cs "fst (quoted_value cs)" "snd (quoted_value cs)"]
      length_dropWhile_le[of "\<lambda>c. c \<noteq> CHR '','' \<and> \<not> is_ascii_whitespace c" s]
    by (simp add: param_value_def del: dropWhile.simps takeWhile.simps)
qed (simp add: param_value_def)

text \<open>One turn of the loop: whether it goes on, the parameter it read if any, and the rest.\<close>

definition next_param :: "string \<Rightarrow> ((string \<times> string) option \<times> string) option" where
  "next_param s =
     (let s = dropWhile (\<lambda>c. is_ascii_whitespace c \<or> c = CHR '','') s;
          name = takeWhile name_char s;
          r = dropWhile is_ascii_whitespace (dropWhile name_char s)
      in if name = [] then None
         else if r = [] \<or> hd r \<noteq> CHR ''='' then Some (None, r)
         else let (value, r) = param_value (dropWhile is_ascii_whitespace (tl r))
              in Some (Some (name, value), r))"

lemma next_param_length:
  assumes "next_param s = Some (x, r)"
  shows "length r < length s"
proof -
  define t where "t = dropWhile (\<lambda>c. is_ascii_whitespace c \<or> c = CHR '','') s"
  define u where "u = dropWhile is_ascii_whitespace (dropWhile name_char t)"
  have "takeWhile name_char t \<noteq> []" using assms by (auto simp: next_param_def t_def[symmetric] Let_def split: if_splits)
  then have "length (dropWhile name_char t) < length t"
    by (cases t) (auto simp: le_imp_less_Suc length_dropWhile_le split: if_splits)
  then have "length u < length s"
    using length_dropWhile_le[of is_ascii_whitespace "dropWhile name_char t"]
      length_dropWhile_le[of "\<lambda>c. is_ascii_whitespace c \<or> c = CHR '',''" s] by (simp add: u_def t_def)
  moreover have "length (snd (param_value (dropWhile is_ascii_whitespace (tl u)))) \<le> length u"
    using param_value_length[of "dropWhile is_ascii_whitespace (tl u)"]
      length_dropWhile_le[of is_ascii_whitespace "tl u"] by simp
  ultimately show ?thesis
    using assms by (auto simp: next_param_def t_def[symmetric] u_def[symmetric] Let_def split: if_splits prod.splits)
qed

function auth_params :: "(string \<Rightarrow> string) \<Rightarrow> (string \<times> string) list \<Rightarrow> string \<Rightarrow> (string \<times> string) list" where
  "auth_params lowercase out s =
     (case next_param s of
        None \<Rightarrow> out
      | Some (p, r) \<Rightarrow>
          auth_params lowercase (case p of None \<Rightarrow> out | Some (name, value) \<Rightarrow> hm_insert (lowercase name) value out) r)"
  by pat_completeness auto
termination
  by (relation "measure (\<lambda>(l, out, s). length s)") (auto dest: next_param_length)

declare auth_params.simps [simp del]

definition parse_auth_params :: "(string \<Rightarrow> string) \<Rightarrow> string \<Rightarrow> (string \<times> string) list" where
  "parse_auth_params lowercase src = auth_params lowercase [] src"

section \<open>The challenge\<close>

definition filled :: "string option \<Rightarrow> string option" where
  "filled v = (case v of Some s \<Rightarrow> if s = [] then None else Some s | None \<Rightarrow> None)"

definition parse_challenge :: "(string \<Rightarrow> string) \<Rightarrow> string \<Rightarrow> oauth_challenge option slicing" where
  "parse_challenge lowercase header =
     (case strip_scheme header ''Bearer'' of
        Panicked \<Rightarrow> Panicked
      | Sliced None \<Rightarrow> Sliced None
      | Sliced (Some rest) \<Rightarrow>
          (let params = map_of (parse_auth_params lowercase rest)
           in case filled (params ''resource_metadata'') of
                None \<Rightarrow> Sliced None
              | Some url \<Rightarrow>
                  Sliced (Some \<lparr>resource_metadata = url,
                    client_id = filled (params ''client_id''),
                    client_secret = filled (params ''client_secret''),
                    device_code_client_id = filled (params ''device_code_client_id''),
                    device_code_client_secret = filled (params ''device_code_client_secret''),
                    use_id_token_as_bearer =
                      (case params ''use_id_token_as_bearer'' of
                         Some v \<Rightarrow> eq_ignore_ascii_case v ''true'' \<or> v = ''1''
                       | None \<Rightarrow> False)\<rparr>)))"

section \<open>Challenges a server writes\<close>

text \<open>The quoted-string form: a quote or a backslash in a value is written with a backslash before it.\<close>

definition escape :: "string \<Rightarrow> string" where
  "escape v = concat (map (\<lambda>c. if c = CHR 0x22 \<or> c = CHR 0x5C then [CHR 0x5C, c] else [c]) v)"

definition render_param :: "string \<times> string \<Rightarrow> string" where
  "render_param p = fst p @ CHR ''='' # CHR 0x22 # escape (snd p) @ [CHR 0x22]"

fun render_params :: "(string \<times> string) list \<Rightarrow> string" where
  "render_params [] = []"
| "render_params [p] = render_param p"
| "render_params (p # q # ps) = render_param p @ '', '' @ render_params (q # ps)"

definition param_name :: "string \<Rightarrow> bool" where
  "param_name n \<longleftrightarrow> n \<noteq> [] \<and> list_all (\<lambda>c. name_char c \<and> 33 \<le> code c \<and> code c < 128) n"

lemma quoted_value_escape: "quoted_value (escape v @ CHR 0x22 # r) = (v, r)"
  by (induction v) (auto simp: escape_def)

lemma not_name_char: "\<not> name_char (CHR ''='')" "\<not> is_ascii_whitespace (CHR ''='')" "\<not> is_ascii_whitespace (CHR 0x22)"
    "is_ascii_whitespace (CHR '' '')"
  by (simp_all add: name_char_def is_ascii_whitespace_def)

lemma next_param_render:
  assumes "param_name n"
  shows "next_param (render_param (n, v) @ r) = Some (Some (n, v), r)"
proof -
  obtain c cs where n: "n = c # cs" using assms by (cases n) (auto simp: param_name_def)
  have c: "\<not> is_ascii_whitespace c" "c \<noteq> CHR '',''" using assms n by (auto simp: param_name_def name_char_def)
  have all: "\<forall>x \<in> set n. name_char x" using assms by (auto simp: param_name_def list_all_iff)
  let ?s = "render_param (n, v) @ r"
  let ?t = "CHR ''='' # CHR 0x22 # escape v @ CHR 0x22 # r"
  have s: "?s = n @ ?t" by (simp add: render_param_def)
  have 1: "dropWhile (\<lambda>c. is_ascii_whitespace c \<or> c = CHR '','') ?s = n @ ?t" using c n s by simp
  have 2: "takeWhile name_char (n @ ?t) = n" "dropWhile name_char (n @ ?t) = ?t"
    using all not_name_char(1) by (simp_all add: takeWhile_append2 dropWhile_append2)
  show ?thesis
    unfolding next_param_def Let_def 1 2
    using n not_name_char quoted_value_escape[of v r] by (simp add: param_value_def)
qed

lemma next_param_separator: "next_param (CHR '','' # CHR '' '' # s) = next_param s"
  using not_name_char(4) by (simp add: next_param_def)

lemma next_param_Nil: "next_param [] = None"
  by (simp add: next_param_def)

lemma auth_params_render:
  "list_all (\<lambda>p. param_name (fst p)) ps \<Longrightarrow>
   map_of (auth_params lowercase out (render_params ps)) = map_of out ++ map_of (rev (map (\<lambda>(n, v). (lowercase n, v)) ps))"
proof (induction ps arbitrary: out rule: render_params.induct)
  case 1
  then show ?case by (subst auth_params.simps) (simp add: next_param_Nil)
next
  case (2 p)
  obtain n v where p: "p = (n, v)" by (cases p)
  have "next_param (render_param (n, v)) = Some (Some (n, v), [])"
    using next_param_render[of n v "[]"] 2 p by simp
  then show ?case
    using p by (subst auth_params.simps) (simp, subst auth_params.simps, simp add: next_param_Nil)
next
  case (3 p q ps)
  obtain n v where p: "p = (n, v)" by (cases p)
  have "next_param (render_params (p # q # ps)) = Some (Some (n, v), '', '' @ render_params (q # ps))"
    using next_param_render[of n v "'', '' @ render_params (q # ps)"] 3(2) p by simp
  moreover have "auth_params lowercase o1 (CHR '','' # CHR '' '' # s) = auth_params lowercase o1 s" for o1 s
    by (subst (1 2) auth_params.simps) (simp add: next_param_separator)
  ultimately have "auth_params lowercase out (render_params (p # q # ps))
      = auth_params lowercase (hm_insert (lowercase n) v out) (render_params (q # ps))"
    by (subst auth_params.simps) simp
  then show ?case using 3 p by (simp add: map_add_assoc fun_eq_iff map_add_def split: option.split)
qed

lemma trim_start_graphic:
  assumes "s \<noteq> []" "33 \<le> code (hd s)" "code (hd s) < 128"
  shows "strip_spaces k WHITE_SPACE s = s"
proof (rule strip_spaces_none)
  show "list_all (\<lambda>p. p \<noteq> [] \<and> hd p \<noteq> hd s) WHITE_SPACE"
    using white_space_ends assms(2,3) by (auto simp: list_all_iff)
qed (rule assms(1))

lemma find_unique:
  assumes "y \<in> set xs" "P y" "\<And>x. x \<in> set xs \<Longrightarrow> P x \<Longrightarrow> x = y"
  shows "List.find P xs = Some y"
proof (cases "List.find P xs")
  case None
  then show ?thesis using assms(1,2) by (simp add: find_None_iff)
next
  case (Some z)
  then have "z \<in> set xs" "P z" by (auto simp: find_Some_iff)
  then show ?thesis using assms(3)[of z] Some by simp
qed

lemma space_code: "char_of (32 :: nat) = CHR '' ''"
  by (simp add: char_of_def bit_0)

lemma white_space_space: "'' '' \<in> set WHITE_SPACE" "list_all (\<lambda>p. code (hd p) = 32 \<longrightarrow> length p = 1) WHITE_SPACE"
proof -
  have "[char_of (32 :: nat)] \<in> set WHITE_SPACE"
    unfolding WHITE_SPACE_def set_append list.map list.set by blast
  then show "'' '' \<in> set WHITE_SPACE" by (simp only: space_code)
qed (simp add: WHITE_SPACE_def)

lemma trim_start_space:
  assumes "s \<noteq> []" "33 \<le> code (hd s)" "code (hd s) < 128"
  shows "trim_start (CHR '' '' # s) = s"
proof -
  have "p = '' ''" if white: "p \<in> set WHITE_SPACE" and start: "starts_with p (CHR '' '' # s)" for p
  proof -
    have "p \<noteq> []" using white_space_ends white by (auto simp: list_all_iff)
    then obtain q where p: "p = CHR '' '' # q" using start by (cases p) (auto simp: starts_with_iff)
    have "code (hd p) = 32" by (simp add: p)
    then have "length p = 1" using white_space_space(2) white unfolding list_all_iff by blast
    then show ?thesis using p by simp
  qed
  moreover have "starts_with '' '' (CHR '' '' # s)" by (simp add: starts_with_iff)
  ultimately have "List.find (\<lambda>p. starts_with p (CHR '' '' # s)) WHITE_SPACE = Some '' ''"
    using white_space_space(1) by (intro find_unique)
  then show ?thesis using trim_start_graphic[OF assms, of "length s"] by (simp add: trim_start_def)
qed

lemma strip_scheme_bearer:
  assumes "s \<noteq> []" "33 \<le> code (hd s)" "code (hd s) < 128"
  shows "strip_scheme (''Bearer '' @ s) ''Bearer'' = Sliced (Some s)"
proof -
  have "trim_start (''Bearer '' @ s) = ''Bearer '' @ s" unfolding trim_start_def by (rule trim_start_graphic) simp_all
  then show ?thesis
    using trim_start_space[OF assms] by (simp add: strip_scheme_def is_char_boundary_def is_ascii_whitespace_def)
qed

lemma render_params_hd:
  assumes "list_all (\<lambda>p. param_name (fst p)) ps" "ps \<noteq> []"
  shows "render_params ps \<noteq> []" "33 \<le> code (hd (render_params ps))" "code (hd (render_params ps)) < 128"
proof -
  obtain n v qs where ps: "ps = (n, v) # qs" using assms(2) by (cases ps) auto
  obtain c cs where n: "n = c # cs" "33 \<le> code c" "code c < 128" using assms(1) ps by (cases n) (auto simp: param_name_def)
  have "\<exists>r. render_params ps = c # r" using ps n(1) by (cases qs) (auto simp: render_param_def)
  then show "render_params ps \<noteq> []" "33 \<le> code (hd (render_params ps))" "code (hd (render_params ps)) < 128"
    using n by auto
qed

text \<open>C23: A Bearer challenge in the quoted form of RFC 9110 is understood in full: whatever the order of the
  parameters, the letter case of their names and the characters of their values (commas, equals signs,
  quotes and backslashes included), the client takes exactly the values the server wrote, the last
  one where a name is repeated; empty values count as absent.\<close>

theorem challenge_parsed:
  assumes "\<And>s. list_all (\<lambda>c. code c < 128) s \<Longrightarrow> lowercase s = map to_ascii_lowercase s"
    "list_all (\<lambda>p. param_name (fst p)) ps"
    "params = map_of (rev (map (\<lambda>(n, v). (map to_ascii_lowercase n, v)) ps))"
    "params ''resource_metadata'' = Some url" "url \<noteq> []"
  shows "parse_challenge lowercase (''Bearer '' @ render_params ps) =
    Sliced (Some \<lparr>resource_metadata = url,
      client_id = filled (params ''client_id''),
      client_secret = filled (params ''client_secret''),
      device_code_client_id = filled (params ''device_code_client_id''),
      device_code_client_secret = filled (params ''device_code_client_secret''),
      use_id_token_as_bearer =
        (\<exists>v. params ''use_id_token_as_bearer'' = Some v \<and> (eq_ignore_ascii_case v ''true'' \<or> v = ''1''))\<rparr>)"
proof -
  have "ps \<noteq> []" using assms(3,4) by auto
  note strip = strip_scheme_bearer[OF render_params_hd[OF assms(2) this]]
  have low: "map (\<lambda>(n, v). (lowercase n, v)) ps = map (\<lambda>(n, v). (map to_ascii_lowercase n, v)) ps"
    using assms(1,2) by (auto simp: list_all_iff param_name_def)
  have "map_of (parse_auth_params lowercase (render_params ps)) = params"
    using auth_params_render[OF assms(2), of lowercase "[]"] unfolding parse_auth_params_def low assms(3) by simp
  then show ?thesis
    unfolding parse_challenge_def strip using assms(4,5) by (simp add: filled_def split: option.split)
qed

theorem challenge_parsed_witness:
  "parse_challenge (map to_ascii_lowercase)
     (''Bearer '' @ render_params [(''Client_ID'', [CHR 0x22, CHR '','', CHR 0x5C]), (''resource_metadata'', ''https://x/rm'')]) =
    Sliced (Some \<lparr>resource_metadata = ''https://x/rm'', client_id = Some [CHR 0x22, CHR '','', CHR 0x5C], client_secret = None,
      device_code_client_id = None, device_code_client_secret = None, use_id_token_as_bearer = False\<rparr>)"
proof -
  let ?ps = "[(''Client_ID'', [CHR 0x22, CHR '','', CHR 0x5C]), (''resource_metadata'', ''https://x/rm'')]"
  define params where "params = map_of (rev (map (\<lambda>(n, v). (map to_ascii_lowercase n, v)) ?ps))"
  have names: "map (\<lambda>(n, v). (map to_ascii_lowercase n, v)) ?ps =
      [(''client_id'', [CHR 0x22, CHR '','', CHR 0x5C]), (''resource_metadata'', ''https://x/rm'')]"
    by code_simp
  have "list_all (\<lambda>p. param_name (fst p)) ?ps" by code_simp
  moreover have params: "params = [''client_id'' \<mapsto> [CHR 0x22, CHR '','', CHR 0x5C], ''resource_metadata'' \<mapsto> ''https://x/rm'']"
    unfolding params_def names by simp
  moreover have "params ''client_id'' = Some [CHR 0x22, CHR '','', CHR 0x5C]" "params ''resource_metadata'' = Some ''https://x/rm''"
    "params ''client_secret'' = None" "params ''device_code_client_id'' = None" "params ''device_code_client_secret'' = None"
    "params ''use_id_token_as_bearer'' = None"
    unfolding params by simp_all
  ultimately show ?thesis
    using challenge_parsed[of "map to_ascii_lowercase" ?ps params "''https://x/rm''", OF refl _ params_def]
    by (simp add: filled_def del: render_params.simps map_upds_def)
qed

text \<open>A header whose seventh byte continues a character makes the slice of the scheme panic.\<close>

lemma challenge_boundary_panics:
  "parse_challenge lowercase (''Beare'' @ char_of (0xC3 :: nat) # char_of (0xA9 :: nat) # s) = Panicked"
proof -
  have "trim_start (''Beare'' @ char_of (0xC3 :: nat) # char_of (0xA9 :: nat) # s)
      = ''Beare'' @ char_of (0xC3 :: nat) # char_of (0xA9 :: nat) # s"
    unfolding trim_start_def by (rule trim_start_graphic) simp_all
  then show ?thesis by (simp add: parse_challenge_def strip_scheme_def is_char_boundary_def)
qed

end
