(* ===== verification/Spec2Isabelle.thy ===== *)
theory Spec2Isabelle
  imports Base64 Split_Token Attach_Redeem Storage Window_Cache Result_Cache Retry Worker_Pool Overload Numeric Opaque Sql_Round Challenge
begin

text \<open>
  Verification library of the VGI Rust implementation: the worker crate \<open>src/vgi\<close>, the client
  crate \<open>src/vgi-client\<close> and the protocol crate \<open>src/vgi-protocol\<close>.

  A VGI worker serves functions and catalogs to a database over Arrow record batches. The client
  finds a worker by its LOCATION, borrows a connection from a pool, sends calls with retries, and
  caches results under keys that name the caller and the call. The worker hands out sealed values
  that come back later: attach tickets, attach and transaction values, and split tokens. Between
  calls it keeps state in a function storage and decoded partitions in a cache; it resolves the
  overload of each call, derives numeric result types, and refuses SQL in catalog metadata that the
  database would refuse.

  \<^bold>\<open>Shared theories.\<close>
  \<^item> \<open>VGI_Prelude\<close>: little-endian integers, \<open>i64\<close> with its wrap-around, strings as UTF-8 bytes and
    ASCII classes, decimal numbers, results (\<open>rbind\<close> is the operator \<open>?\<close>), hash maps as association
    lists with distinct keys and their byte totals, and the collections of facts \<open>le_simps\<close>,
    \<open>result_simps\<close>, \<open>errs_intros\<close> and \<open>acct_simps\<close>.
  \<^item> \<open>Rust_Str\<close>: the string operations of the Rust standard library that the sources call.
  \<^item> \<open>Arrow\<close>: Arrow types, fields, arrays and record batches as data.
  \<^item> \<open>Prefix_Code\<close>: the locale of encodings that can be peeled off the front of a byte string, from
    which follows that concatenations of them are injective; interpreted on the fields of the
    location fingerprint and of the result-cache key.
  \<^item> \<open>Envelope\<close>: what the sealed values share, the contract of the external authenticated encryption
    (opening what was sealed; opening nothing that was not), and the caller's identity bytes.

  \<^bold>\<open>Sealed values of the worker.\<close>
  \<^item> \<open>Split_Token\<close>, \<open>src/vgi/src/split_token.rs\<close>: header, associated data, bind fingerprint, building and
    opening. A token opens to the payload it was built with, only tokens built under the
    worker's key for that caller open, and expiry is reported exactly when the anchor is the only
    thing wrong with the header. Two binds with the same fingerprint are exhibited.
  \<^item> \<open>Attach_Ticket\<close>, \<open>src/vgi/src/attach_ticket.rs\<close>: the payload codec with its reader, canonical
    base64url, minting and opening. The decoder accepts exactly the encoder's image, a ticket opens
    only for its principal within its lifetime, and is otherwise refused as expired exactly when it is
    authentic for the caller, and as invalid when it is not.
  \<^item> \<open>Attach_Redeem\<close>: \<open>redeem_attach_ticket\<close> and \<open>seal_attach\<close> with the option registry of
    \<open>src/vgi/src/dispatch.rs\<close> and the spec readers of \<open>src/vgi/src/catalog.rs\<close>. Redeeming a sealed ticket gives
    the attach it stands for, and an attach is replaced exactly for a ticket that this worker sealed
    for this caller.
  \<^item> \<open>Opaque\<close>, \<open>src/vgi/src/opaque.rs\<close>: attach and transaction values, opened in requests at any nesting and
    sealed in results. Every value that opens was sealed for the caller, a transaction beside the
    attach of its own row. A null-typed attach column makes the code panic.
  \<^item> \<open>Base64\<close>, \<open>src/vgi/src/partition.rs\<close> and \<open>src/vgi/src/pushdown.rs\<close>: the encoder and the decoder are inverse.

  \<^bold>\<open>State of the worker.\<close>
  \<^item> \<open>Storage\<close>, \<open>src/vgi/src/storage/mod.rs\<close> and \<open>memory.rs\<close>: the locale \<open>function_storage\<close> is the contract of the
    trait (key-value, append log, queue) with the flush producer of \<open>src/vgi/src/dispatch.rs\<close> proved
    against it, and the in-memory backend is its interpretation. Scans are exact, clearing one
    scope leaves the others, and the flush drains the log once and in order; a flush that is not
    persisted is handed out from memory with the same batches.
  \<^item> \<open>Window_Cache\<close>, \<open>src/vgi/src/window_cache.rs\<close>: steps under the mutex as an inductive relation; the
    byte and entry accounts are exact and within the limits in every reachable state, eviction is
    least recently used, and a fill begun before a clear is dropped.

  \<^bold>\<open>Calls.\<close>
  \<^item> \<open>Overload\<close>, \<open>src/vgi/src/overload.rs\<close>: among several overloads the one chosen has the best score, the
    first among equals; a lone candidate is chosen unchecked.
  \<^item> \<open>Numeric\<close>, \<open>src/vgi/src/numeric.rs\<close>: the type chosen for an addition does not depend on the order of
    the operands, and for integers of at most 32 bits it holds both operands and their sum.
  \<^item> \<open>Sql_Tokens\<close>, \<open>Sql_Parser\<close>, \<open>Sql_Total\<close>, \<open>Sql_Grammar\<close>, \<open>src/vgi/src/sql_expression.rs\<close>: the tokenizer, one
    definition per precedence level of the parser, the proof that parsing returns on every text,
    and the two grammars, which accept exactly the trees of their specification. \<open>Sql_Render\<close> and
    \<open>Sql_Round\<close> spell every tree within the depth limit as tokens that parse back to it.

  \<^bold>\<open>The client.\<close>
  \<^item> \<open>Cache_Control\<close>, \<open>src/vgi-protocol/src/cache_control.rs\<close>: rendering and parsing are inverse.
  \<^item> \<open>Result_Cache\<close>, \<open>src/vgi-client/src/cache.rs\<close>: keys and their encoding, admission, and every mutating
    operation as a step. The size accounts are exact and within the limits in every reachable
    state, keys of different calls have different bytes, what is inserted is found until it goes
    stale, admission fails closed, and flushing a scope touches no other.
  \<^item> \<open>Retry\<close>, \<open>src/vgi-client/src/retry.rs\<close>: the loop ends within the attempts of its policy, goes on exactly
    while the policy lets it, and returns the outcome or the cause it stopped for; the time budget
    bounds when an attempt may begin, not how long the last one takes. Dates in Retry-After follow the civil calendar.
  \<^item> \<open>Location\<close>, \<open>src/vgi-client/src/location.rs\<close>: command lines split back into the arguments that were
    quoted, labels of network locations parse back, and fingerprint inputs of different locations differ.
  \<^item> \<open>Challenge\<close>, \<open>src/vgi-client/src/auth/challenge.rs\<close>: the challenge that starts a login is read in full,
    whatever its values contain; a header that splits a character where the scheme ends panics.
  \<^item> \<open>Worker_Pool\<close>, \<open>src/vgi-client/src/pool.rs\<close>: in every reachable state of the pool and its callers no
    connection is held twice, and a guard's connection was opened under the guard's own key.

  \<^bold>\<open>Conventions.\<close> A struct is a record, an enum a datatype, \<open>Result\<close> a sum with the error on the left.
  \<open>usize\<close> and lengths are natural numbers, \<open>i64\<close> integers with the range or the wrap written out,
  bytes and \<open>u32\<close> groups are words. A mutex-guarded method is one function on the state. Clocks are
  arguments: instants are natural nanoseconds, floating-point seconds and jitter exact rationals.
  Random bytes, SHA-256, the authenticated encryption, Arrow's kernels, IPC and batch constructor, and
  Unicode tables beyond ASCII are not in the repository and are parameters, with what the code relies
  on as hypotheses that a concrete instance is shown to satisfy.

  \<^bold>\<open>Bounds.\<close> The retry loop runs on the attempts its policy leaves. Opening a request takes the depth
  it may descend, because the code does not bound it; the outcome \<open>Deep\<close> is neither success nor
  refusal, and the statements quantify over every depth. The SQL parser takes one nested call more
  than \<open>MAX_DEPTH * 4\<close>, the code's own limit, and each of its loops one turn more than there are
  tokens left; both are proved to be enough. All other recursions are structural or have a
  termination proof.

  \<^bold>\<open>Not modelled.\<close> Hosting and streaming of calls (\<open>dispatch.rs\<close>, \<open>worker.rs\<close>, \<open>transport.rs\<close>, the client's
  \<open>scan.rs\<close>, \<open>exchange.rs\<close>, \<open>client.rs\<close>) run the external RPC library over sockets, pipes and threads.
  The file system, SQLite and HTTP storage backends, the disk cache, catalog snapshots, the
  launcher and the identity providers are I/O. Filter evaluation and pruning (\<open>pushdown.rs\<close>) is
  evaluation by Arrow's compute kernels over JSON read by an external parser. The
  rest of \<open>catalog.rs\<close>, \<open>constraints.rs\<close> and the generated protocol types build and read metadata batches
  field by field. The example worker and the examples are fixtures. In \<open>numeric.rs\<close> the element
  readers convert to IEEE doubles and are left out; in the client's cache the read-only listings.
\<close>

end
